theory Spec2Isabelle
  imports Main "HOL-Library.Word"
begin

section \<open>Ticks (Ticks.hpp and its implementation)\<close>

text \<open>\<^verbatim>\<open>using Ticks_t = uint32_t;\<close>\<close>

type_synonym Ticks_t = "32 word"

section \<open>The native RTOS interface consumed by the wrappers\<close>

text \<open>
  The wrappers are written against the FreeRTOS semaphore API, which is not part of the
  repository. Every native entry point the sources call is a field of the record below; the
  kernel state \<open>'k\<close> is threaded through each call. Handles are pointers: a natural number,
  with \<open>0\<close> for the null pointer. \<open>BaseType_t\<close> results are integers.
\<close>

type_synonym NativeHdl = nat
type_synonym TaskHandle_t = nat
type_synonym BaseType_t = int

definition nullptr :: nat where
  "nullptr = 0"

definition pdTRUE :: BaseType_t where
  "pdTRUE = 1"

definition pdFALSE :: BaseType_t where
  "pdFALSE = 0"

record 'k native =
  xSemaphoreCreateMutex :: "'k \<Rightarrow> NativeHdl \<times> 'k"
  xSemaphoreCreateRecursiveMutex :: "'k \<Rightarrow> NativeHdl \<times> 'k"
  vSemaphoreDelete :: "NativeHdl \<Rightarrow> 'k \<Rightarrow> 'k"
  xSemaphoreTake :: "NativeHdl \<Rightarrow> Ticks_t \<Rightarrow> 'k \<Rightarrow> BaseType_t \<times> 'k"
  xSemaphoreTakeRecursive :: "NativeHdl \<Rightarrow> Ticks_t \<Rightarrow> 'k \<Rightarrow> BaseType_t \<times> 'k"
  xSemaphoreGive :: "NativeHdl \<Rightarrow> 'k \<Rightarrow> BaseType_t \<times> 'k"
  xSemaphoreGiveRecursive :: "NativeHdl \<Rightarrow> 'k \<Rightarrow> BaseType_t \<times> 'k"
  xSemaphoreGetMutexHolder :: "NativeHdl \<Rightarrow> 'k \<Rightarrow> TaskHandle_t \<times> 'k"
  portMAX_DELAY :: Ticks_t

text \<open>\<^verbatim>\<open>Ticks_t GetMaxDelay() { return portMAX_DELAY; }\<close>\<close>

definition GetMaxDelay :: "'k native \<Rightarrow> Ticks_t" where
  "GetMaxDelay api = portMAX_DELAY api"

section \<open>The C assertion macro\<close>

text \<open>
  Both constructors end with \<^verbatim>\<open>assert(_handle && "...")\<close>. The standard macro expands to
  nothing when the translation unit is compiled with \<open>NDEBUG\<close>; otherwise a false condition
  prints the message and aborts the program. The build flag is a parameter of the model and
  the abort is a value.
\<close>

datatype failure = AssertionFailed string

definition c_assert :: "bool \<Rightarrow> bool \<Rightarrow> string \<Rightarrow> failure option" where
  "c_assert ndebug cond msg = (if ndebug \<or> cond then None else Some (AssertionFailed msg))"

section \<open>Mutex (Mutex.hpp, Mutex.cpp)\<close>

record Mutex =
  Mutex_handle :: NativeHdl

definition Mutex_ctor :: "bool \<Rightarrow> 'k native \<Rightarrow> 'k \<Rightarrow> failure + (Mutex \<times> 'k)" where
  "Mutex_ctor ndebug api k =
     (let m0 = \<lparr>Mutex_handle = nullptr\<rparr>;
          (h, k') = xSemaphoreCreateMutex api k;
          m = m0\<lparr>Mutex_handle := h\<rparr>
      in case c_assert ndebug (Mutex_handle m \<noteq> nullptr) ''Failed to create the mutex'' of
           Some f \<Rightarrow> Inl f
         | None \<Rightarrow> Inr (m, k'))"

definition Mutex_dtor :: "'k native \<Rightarrow> Mutex \<Rightarrow> 'k \<Rightarrow> 'k" where
  "Mutex_dtor api m k = vSemaphoreDelete api (Mutex_handle m) k"

definition Mutex_IsValid :: "Mutex \<Rightarrow> bool" where
  "Mutex_IsValid m = (nullptr \<noteq> Mutex_handle m)"

definition Mutex_TryLockFor :: "'k native \<Rightarrow> Mutex \<Rightarrow> Ticks_t \<Rightarrow> 'k \<Rightarrow> bool \<times> 'k" where
  "Mutex_TryLockFor api m timeout k =
     (let (ret, k') = xSemaphoreTake api (Mutex_handle m) timeout k
      in (pdTRUE = ret, k'))"

definition Mutex_TryLock :: "'k native \<Rightarrow> Mutex \<Rightarrow> 'k \<Rightarrow> bool \<times> 'k" where
  "Mutex_TryLock api m k = Mutex_TryLockFor api m 0 k"

text \<open>
  The \<^verbatim>\<open>do { locked = TryLockFor(GetMaxDelay()); } while(!locked);\<close> loop. It may run
  forever, so the result is an option: \<open>None\<close> is "never returns".
\<close>

partial_function (option) Mutex_Lock :: "'k native \<Rightarrow> Mutex \<Rightarrow> 'k \<Rightarrow> 'k option" where
  "Mutex_Lock api m k =
     (case Mutex_TryLockFor api m (GetMaxDelay api) k of
        (locked, k') \<Rightarrow> if \<not> locked then Mutex_Lock api m k' else Some k')"

declare Mutex_Lock.simps [code]

definition Mutex_Unlock :: "'k native \<Rightarrow> Mutex \<Rightarrow> 'k \<Rightarrow> 'k" where
  "Mutex_Unlock api m k =
     (let (ret, k') = xSemaphoreGive api (Mutex_handle m) k in k')"

definition Mutex_IsLocked :: "'k native \<Rightarrow> Mutex \<Rightarrow> 'k \<Rightarrow> bool \<times> 'k" where
  "Mutex_IsLocked api m k =
     (let (taskHdl, k') = xSemaphoreGetMutexHolder api (Mutex_handle m) k
      in (nullptr \<noteq> taskHdl, k'))"

section \<open>RecursiveMutex (RecursiveMutex.hpp and its implementation)\<close>

record RecursiveMutex =
  RecursiveMutex_handle :: NativeHdl

definition RecursiveMutex_ctor ::
  "bool \<Rightarrow> 'k native \<Rightarrow> 'k \<Rightarrow> failure + (RecursiveMutex \<times> 'k)" where
  "RecursiveMutex_ctor ndebug api k =
     (let m0 = \<lparr>RecursiveMutex_handle = nullptr\<rparr>;
          (h, k') = xSemaphoreCreateRecursiveMutex api k;
          m = m0\<lparr>RecursiveMutex_handle := h\<rparr>
      in case c_assert ndebug (RecursiveMutex_handle m \<noteq> nullptr)
                ''Failed to create the recursive mutex'' of
           Some f \<Rightarrow> Inl f
         | None \<Rightarrow> Inr (m, k'))"

definition RecursiveMutex_dtor :: "'k native \<Rightarrow> RecursiveMutex \<Rightarrow> 'k \<Rightarrow> 'k" where
  "RecursiveMutex_dtor api m k = vSemaphoreDelete api (RecursiveMutex_handle m) k"

definition RecursiveMutex_IsValid :: "RecursiveMutex \<Rightarrow> bool" where
  "RecursiveMutex_IsValid m = (nullptr \<noteq> RecursiveMutex_handle m)"

definition RecursiveMutex_TryLockFor ::
  "'k native \<Rightarrow> RecursiveMutex \<Rightarrow> Ticks_t \<Rightarrow> 'k \<Rightarrow> bool \<times> 'k" where
  "RecursiveMutex_TryLockFor api m timeout k =
     (let (ret, k') = xSemaphoreTakeRecursive api (RecursiveMutex_handle m) timeout k
      in (pdTRUE = ret, k'))"

definition RecursiveMutex_TryLock :: "'k native \<Rightarrow> RecursiveMutex \<Rightarrow> 'k \<Rightarrow> bool \<times> 'k" where
  "RecursiveMutex_TryLock api m k = RecursiveMutex_TryLockFor api m 0 k"

partial_function (option) RecursiveMutex_Lock ::
  "'k native \<Rightarrow> RecursiveMutex \<Rightarrow> 'k \<Rightarrow> 'k option" where
  "RecursiveMutex_Lock api m k =
     (case RecursiveMutex_TryLockFor api m (GetMaxDelay api) k of
        (locked, k') \<Rightarrow> if \<not> locked then RecursiveMutex_Lock api m k' else Some k')"

declare RecursiveMutex_Lock.simps [code]

definition RecursiveMutex_Unlock :: "'k native \<Rightarrow> RecursiveMutex \<Rightarrow> 'k \<Rightarrow> 'k" where
  "RecursiveMutex_Unlock api m k =
     (let (ret, k') = xSemaphoreGiveRecursive api (RecursiveMutex_handle m) k in k')"

definition RecursiveMutex_IsLocked ::
  "'k native \<Rightarrow> RecursiveMutex \<Rightarrow> 'k \<Rightarrow> bool \<times> 'k" where
  "RecursiveMutex_IsLocked api m k =
     (let (taskHdl, k') = xSemaphoreGetMutexHolder api (RecursiveMutex_handle m) k
      in (nullptr \<noteq> taskHdl, k'))"

section \<open>LockGuard (LockGuard.hpp)\<close>

text \<open>
  The template parameter \<open>MUTEX\<close> is any type with the four operations the guard calls. A
  mutex object living in a world \<open>'w\<close> is the record of its operations on that world;
  \<open>Lock\<close> may block forever and so returns an option. The guard stores the reference
  \<open>_mutex\<close> and the flag \<open>_isLocked\<close>.
\<close>

record 'w MUTEX =
  M_Lock :: "'w \<Rightarrow> 'w option"
  M_TryLock :: "'w \<Rightarrow> bool \<times> 'w"
  M_TryLockFor :: "Ticks_t \<Rightarrow> 'w \<Rightarrow> bool \<times> 'w"
  M_Unlock :: "'w \<Rightarrow> 'w"

record 'w LockGuard =
  mutex :: "'w MUTEX"
  isLocked :: bool

definition OwnsLock :: "'w LockGuard \<Rightarrow> bool" where
  "OwnsLock g = isLocked g"

definition LockGuard_Lock :: "'w LockGuard \<Rightarrow> 'w \<Rightarrow> ('w LockGuard \<times> 'w) option" where
  "LockGuard_Lock g w =
     (if \<not> OwnsLock g then
        (case M_Lock (mutex g) w of
           None \<Rightarrow> None
         | Some w' \<Rightarrow> Some (g\<lparr>isLocked := True\<rparr>, w'))
      else Some (g, w))"

definition LockGuard_TryLock :: "'w LockGuard \<Rightarrow> 'w \<Rightarrow> bool \<times> 'w LockGuard \<times> 'w" where
  "LockGuard_TryLock g w =
     (let (g', w') =
            (if \<not> OwnsLock g then
               (let (r, w') = M_TryLock (mutex g) w in (g\<lparr>isLocked := r\<rparr>, w'))
             else (g, w))
      in (isLocked g', g', w'))"

definition LockGuard_TryLockFor ::
  "'w LockGuard \<Rightarrow> Ticks_t \<Rightarrow> 'w \<Rightarrow> bool \<times> 'w LockGuard \<times> 'w" where
  "LockGuard_TryLockFor g timeout w =
     (let (g', w') =
            (if \<not> OwnsLock g then
               (let (r, w') = M_TryLockFor (mutex g) timeout w in (g\<lparr>isLocked := r\<rparr>, w'))
             else (g, w))
      in (isLocked g', g', w'))"

definition LockGuard_Unlock :: "'w LockGuard \<Rightarrow> 'w \<Rightarrow> 'w LockGuard \<times> 'w" where
  "LockGuard_Unlock g w =
     (if OwnsLock g then
        (let g' = g\<lparr>isLocked := False\<rparr> in (g', M_Unlock (mutex g') w))
      else (g, w))"

text \<open>The four constructors: immediate, deferred, try-once and timed.\<close>

definition LockGuard_ctor :: "'w MUTEX \<Rightarrow> 'w \<Rightarrow> ('w LockGuard \<times> 'w) option" where
  "LockGuard_ctor M w = LockGuard_Lock \<lparr>mutex = M, isLocked = False\<rparr> w"

definition LockGuard_ctor_DeferLock :: "'w MUTEX \<Rightarrow> 'w \<Rightarrow> 'w LockGuard \<times> 'w" where
  "LockGuard_ctor_DeferLock M w = (\<lparr>mutex = M, isLocked = False\<rparr>, w)"

definition LockGuard_ctor_TryToLock :: "'w MUTEX \<Rightarrow> 'w \<Rightarrow> 'w LockGuard \<times> 'w" where
  "LockGuard_ctor_TryToLock M w = snd (LockGuard_TryLock \<lparr>mutex = M, isLocked = False\<rparr> w)"

definition LockGuard_ctor_timeout :: "'w MUTEX \<Rightarrow> Ticks_t \<Rightarrow> 'w \<Rightarrow> 'w LockGuard \<times> 'w" where
  "LockGuard_ctor_timeout M timeout w =
     snd (LockGuard_TryLockFor \<lparr>mutex = M, isLocked = False\<rparr> timeout w)"

text \<open>The destructor calls \<open>Unlock()\<close>; what remains afterwards is the world.\<close>

definition LockGuard_dtor :: "'w LockGuard \<Rightarrow> 'w \<Rightarrow> 'w" where
  "LockGuard_dtor g w = snd (LockGuard_Unlock g w)"

text \<open>\<open>LockGuard<Mutex>\<close> and \<open>LockGuard<RecursiveMutex>\<close>: the operations of one object.\<close>

definition Mutex_ops :: "'k native \<Rightarrow> Mutex \<Rightarrow> 'k MUTEX" where
  "Mutex_ops api m =
     \<lparr>M_Lock = Mutex_Lock api m, M_TryLock = Mutex_TryLock api m,
      M_TryLockFor = Mutex_TryLockFor api m, M_Unlock = Mutex_Unlock api m\<rparr>"

definition RecursiveMutex_ops :: "'k native \<Rightarrow> RecursiveMutex \<Rightarrow> 'k MUTEX" where
  "RecursiveMutex_ops api m =
     \<lparr>M_Lock = RecursiveMutex_Lock api m, M_TryLock = RecursiveMutex_TryLock api m,
      M_TryLockFor = RecursiveMutex_TryLockFor api m, M_Unlock = RecursiveMutex_Unlock api m\<rparr>"

section \<open>A mutex that records the calls made on it\<close>

text \<open>
  To state that the guard does or does not invoke an operation of the underlying mutex,
  any mutex is wrapped into one that also appends the name of every operation invoked on it
  to a call list. The wrapped mutex offers the same four operations, so it is an admissible
  template argument of the guard.
\<close>

datatype mutex_call = CallLock | CallTryLock | CallTryLockFor Ticks_t | CallUnlock

definition recording :: "'w MUTEX \<Rightarrow> ('w \<times> mutex_call list) MUTEX" where
  "recording M =
     \<lparr>M_Lock = (\<lambda>(w, cs). case M_Lock M w of None \<Rightarrow> None
                                | Some w' \<Rightarrow> Some (w', cs @ [CallLock])),
      M_TryLock = (\<lambda>(w, cs). let (r, w') = M_TryLock M w in (r, (w', cs @ [CallTryLock]))),
      M_TryLockFor = (\<lambda>timeout (w, cs).
         let (r, w') = M_TryLockFor M timeout w in (r, (w', cs @ [CallTryLockFor timeout]))),
      M_Unlock = (\<lambda>(w, cs). (M_Unlock M w, cs @ [CallUnlock]))\<rparr>"

section \<open>The retry loop, unrolled\<close>

text \<open>\<open>after_attempts f n k\<close> is the state after \<open>n\<close> consecutive calls of \<open>f\<close>.\<close>

fun after_attempts :: "('k \<Rightarrow> bool \<times> 'k) \<Rightarrow> nat \<Rightarrow> 'k \<Rightarrow> 'k" where
  "after_attempts f 0 k = k"
| "after_attempts f (Suc n) k = after_attempts f n (snd (f k))"

text \<open>
  \<open>succeeds_at f n k k'\<close>: starting in \<open>k\<close>, the first \<open>n\<close> calls of \<open>f\<close> return false
  and the next one returns true and leaves the state \<open>k'\<close>.
\<close>

fun succeeds_at :: "('k \<Rightarrow> bool \<times> 'k) \<Rightarrow> nat \<Rightarrow> 'k \<Rightarrow> 'k \<Rightarrow> bool" where
  "succeeds_at f 0 k k' = (f k = (True, k'))"
| "succeeds_at f (Suc n) k k' = (\<not> fst (f k) \<and> succeeds_at f n (snd (f k)) k')"

section \<open>A model of the scheduler's lock primitive\<close>

text \<open>
  Tasks are numbered; the handle of task \<open>t\<close> is \<open>Suc t\<close>, never null. A lock object has
  its current holder, if any, and the holder's hold count. The kernel has the running task,
  the lock objects by handle, the number of lock objects the heap can still provide, the
  number of handles given out so far, and the list of native calls made so far.
\<close>

type_synonym task = nat

record lock_object =
  holder :: "task option"
  holds :: nat

datatype native_call =
    CreateMutex
  | CreateRecursiveMutex
  | Delete NativeHdl
  | Take NativeHdl Ticks_t
  | TakeRecursive NativeHdl Ticks_t
  | Give NativeHdl
  | GiveRecursive NativeHdl
  | GetMutexHolder NativeHdl

record kernel =
  current :: task
  objects :: "NativeHdl \<rightharpoonup> lock_object"
  heap_free :: nat
  created :: nat
  calls :: "native_call list"

definition called :: "native_call \<Rightarrow> kernel \<Rightarrow> kernel" where
  "called c k = k\<lparr>calls := calls k @ [c]\<rparr>"

definition free_lock :: lock_object where
  "free_lock = \<lparr>holder = None, holds = 0\<rparr>"

text \<open>
  Modelled from the spec: the scheduler's create-exclusive-lock and
  create-recursive-exclusive-lock (FreeRTOS, not in the repository), "opaque handle or
  null-equivalent on failure". A new lock is unlocked and un-owned. Allocation fails when
  the heap has no room left.
\<close>

definition k_create :: "native_call \<Rightarrow> kernel \<Rightarrow> NativeHdl \<times> kernel" where
  "k_create c k =
     (if heap_free k = 0 then (nullptr, called c k)
      else (Suc (created k),
            (called c k)\<lparr>objects := (objects k)(Suc (created k) \<mapsto> free_lock),
                         heap_free := heap_free k - 1,
                         created := Suc (created k)\<rparr>))"

text \<open>
  Modelled from the spec: the scheduler's destroy(handle) (FreeRTOS, not in the repository).
  The object is removed and its memory returned; a handle that names no object, the null
  handle included, leaves the objects as they are.
\<close>

definition k_delete :: "NativeHdl \<Rightarrow> kernel \<Rightarrow> kernel" where
  "k_delete h k =
     (case objects k h of
        None \<Rightarrow> called (Delete h) k
      | Some s \<Rightarrow> (called (Delete h) k)\<lparr>objects := (objects k)(h := None),
                                         heap_free := Suc (heap_free k)\<rparr>)"

text \<open>
  Modelled from the spec: the scheduler's acquire(handle, timeout) (FreeRTOS, not in the
  repository), "success/failure boolean". A non-recursive lock can be taken only when no task
  holds it: "any attempt by a task to take a non-recursive mutex that it already holds will
  fail". The call is modelled at the instant it returns, with no other task scheduled while
  it waits: on a lock that is held, the wait ends without the lock, whatever the timeout
  (for the block-forever value this is the port without infinite wait that the comment in
  \<open>Lock()\<close> provides for).
\<close>

definition k_take :: "NativeHdl \<Rightarrow> Ticks_t \<Rightarrow> kernel \<Rightarrow> BaseType_t \<times> kernel" where
  "k_take h timeout k =
     (case objects k h of
        None \<Rightarrow> (pdFALSE, called (Take h timeout) k)
      | Some s \<Rightarrow>
          if holder s = None then
            (pdTRUE, (called (Take h timeout) k)
                       \<lparr>objects := (objects k)(h \<mapsto> \<lparr>holder = Some (current k), holds = 1\<rparr>)\<rparr>)
          else (pdFALSE, called (Take h timeout) k))"

text \<open>
  Modelled from the spec: the scheduler's acquire-recursive(handle, timeout) (FreeRTOS, not in
  the repository), "same sentinel semantics, permits re-entrant success for the current
  holder"; each success increments the hold count.
\<close>

definition k_take_recursive :: "NativeHdl \<Rightarrow> Ticks_t \<Rightarrow> kernel \<Rightarrow> BaseType_t \<times> kernel" where
  "k_take_recursive h timeout k =
     (case objects k h of
        None \<Rightarrow> (pdFALSE, called (TakeRecursive h timeout) k)
      | Some s \<Rightarrow>
          if holder s = None then
            (pdTRUE, (called (TakeRecursive h timeout) k)
                       \<lparr>objects := (objects k)(h \<mapsto> \<lparr>holder = Some (current k), holds = 1\<rparr>)\<rparr>)
          else if holder s = Some (current k) then
            (pdTRUE, (called (TakeRecursive h timeout) k)
                       \<lparr>objects := (objects k)(h \<mapsto> s\<lparr>holds := Suc (holds s)\<rparr>)\<rparr>)
          else (pdFALSE, called (TakeRecursive h timeout) k))"

text \<open>
  Modelled from the spec: the scheduler's release(handle) (FreeRTOS, not in the repository),
  "success/failure boolean"; releasing a lock the calling task does not hold fails. A
  non-recursive lock "will always be given back the first time the task gives the mutex".
\<close>

definition k_give :: "NativeHdl \<Rightarrow> kernel \<Rightarrow> BaseType_t \<times> kernel" where
  "k_give h k =
     (case objects k h of
        None \<Rightarrow> (pdFALSE, called (Give h) k)
      | Some s \<Rightarrow>
          if holder s = Some (current k) then
            (pdTRUE, (called (Give h) k)\<lparr>objects := (objects k)(h \<mapsto> free_lock)\<rparr>)
          else (pdFALSE, called (Give h) k))"

text \<open>
  Modelled from the spec: the scheduler's release-recursive(handle) (FreeRTOS, not in the
  repository): the hold count of the holder goes down by one and the lock is "only returned
  after the holding task has given the mutex the same number of times it took the mutex";
  releasing a lock the calling task does not hold fails.
\<close>

definition k_give_recursive :: "NativeHdl \<Rightarrow> kernel \<Rightarrow> BaseType_t \<times> kernel" where
  "k_give_recursive h k =
     (case objects k h of
        None \<Rightarrow> (pdFALSE, called (GiveRecursive h) k)
      | Some s \<Rightarrow>
          if holder s = Some (current k) then
            (pdTRUE, (called (GiveRecursive h) k)
                       \<lparr>objects := (objects k)
                          (h \<mapsto> (if holds s \<le> 1 then free_lock else s\<lparr>holds := holds s - 1\<rparr>))\<rparr>)
          else (pdFALSE, called (GiveRecursive h) k))"

text \<open>
  Modelled from the spec: the scheduler's query-current-holder(handle) (FreeRTOS, not in the
  repository), "task identity or none": the holder's task handle, or null.
\<close>

definition k_holder :: "NativeHdl \<Rightarrow> kernel \<Rightarrow> TaskHandle_t \<times> kernel" where
  "k_holder h k =
     (case objects k h of
        None \<Rightarrow> (nullptr, called (GetMutexHolder h) k)
      | Some s \<Rightarrow>
          (case holder s of None \<Rightarrow> nullptr | Some t \<Rightarrow> Suc t, called (GetMutexHolder h) k))"

text \<open>
  Modelled from the spec: the external collaborator of section 6 as a whole, with the
  block-forever value the largest tick count.
\<close>

definition rtos :: "kernel native" where
  "rtos =
     \<lparr>xSemaphoreCreateMutex = k_create CreateMutex,
      xSemaphoreCreateRecursiveMutex = k_create CreateRecursiveMutex,
      vSemaphoreDelete = k_delete,
      xSemaphoreTake = k_take,
      xSemaphoreTakeRecursive = k_take_recursive,
      xSemaphoreGive = k_give,
      xSemaphoreGiveRecursive = k_give_recursive,
      xSemaphoreGetMutexHolder = k_holder,
      portMAX_DELAY = - 1\<rparr>"

text \<open>A kernel with one running task, no lock objects and room for \<open>n\<close> of them.\<close>

definition boot :: "task \<Rightarrow> nat \<Rightarrow> kernel" where
  "boot t n = \<lparr>current = t, objects = Map.empty, heap_free = n, created = 0, calls = []\<rparr>"

text \<open>
  A second instance of the native interface, for running the retry loop: a port on which a
  block-forever wait can time out. The state is the number of waits that will still time
  out before the lock is there to take.
\<close>

definition busy_port :: "nat native" where
  "busy_port =
     \<lparr>xSemaphoreCreateMutex = (\<lambda>n. (Suc 0, n)),
      xSemaphoreCreateRecursiveMutex = (\<lambda>n. (Suc 0, n)),
      vSemaphoreDelete = (\<lambda>h n. n),
      xSemaphoreTake = (\<lambda>h timeout n. if n = 0 then (pdTRUE, 0) else (pdFALSE, n - 1)),
      xSemaphoreTakeRecursive =
        (\<lambda>h timeout n. if n = 0 then (pdTRUE, 0) else (pdFALSE, n - 1)),
      xSemaphoreGive = (\<lambda>h n. (pdTRUE, n)),
      xSemaphoreGiveRecursive = (\<lambda>h n. (pdTRUE, n)),
      xSemaphoreGetMutexHolder = (\<lambda>h n. (nullptr, n)),
      portMAX_DELAY = - 1\<rparr>"

section \<open>Client programs: sequences of calls\<close>

text \<open>
  One task acquiring a lock several times in a row, by any of the three acquire operations,
  and releasing it several times in a row. \<open>Lock()\<close> returns nothing; when it returns the
  lock has been taken, which is recorded as \<open>True\<close>. \<open>None\<close>: some call never returns.
\<close>

datatype acquire = ByLock | ByTryLock | ByTryLockFor Ticks_t

fun acquire_with :: "'w MUTEX \<Rightarrow> acquire \<Rightarrow> 'w \<Rightarrow> (bool \<times> 'w) option" where
  "acquire_with M ByLock w = (case M_Lock M w of None \<Rightarrow> None | Some w' \<Rightarrow> Some (True, w'))"
| "acquire_with M ByTryLock w = Some (M_TryLock M w)"
| "acquire_with M (ByTryLockFor timeout) w = Some (M_TryLockFor M timeout w)"

fun acquire_all :: "'w MUTEX \<Rightarrow> acquire list \<Rightarrow> 'w \<Rightarrow> (bool list \<times> 'w) option" where
  "acquire_all M [] w = Some ([], w)"
| "acquire_all M (a # as) w =
     (case acquire_with M a w of
        None \<Rightarrow> None
      | Some (b, w') \<Rightarrow>
          (case acquire_all M as w' of
             None \<Rightarrow> None
           | Some (bs, w'') \<Rightarrow> Some (b # bs, w'')))"

fun unlock_times :: "'w MUTEX \<Rightarrow> nat \<Rightarrow> 'w \<Rightarrow> 'w" where
  "unlock_times M 0 w = w"
| "unlock_times M (Suc n) w = unlock_times M n (M_Unlock M w)"

text \<open>
  Several guards on one mutex, used by several tasks. An event is one call by one task,
  either of an operation of one of the guards or of an operation of the mutex itself,
  executed with that task running. Calls are interleaved as wholes: each makes at most one
  native call and otherwise touches only the guard's own flag, which it sets after a take
  has succeeded and clears before the give. A native call is taken at the instant it
  returns, so a call that waits for the lock and gets it is an event placed after the
  release it waited for; \<open>None\<close> means that the call, placed here, never returns.
\<close>

datatype lock_op = OpLock | OpTryLock | OpTryLockFor Ticks_t | OpUnlock

datatype event = ByGuard task nat lock_op | Direct task lock_op

type_synonym scene = "kernel LockGuard list \<times> kernel"

fun guard_call :: "lock_op \<Rightarrow> 'w LockGuard \<Rightarrow> 'w \<Rightarrow> ('w LockGuard \<times> 'w) option" where
  "guard_call OpLock g w = LockGuard_Lock g w"
| "guard_call OpTryLock g w = Some (snd (LockGuard_TryLock g w))"
| "guard_call (OpTryLockFor timeout) g w = Some (snd (LockGuard_TryLockFor g timeout w))"
| "guard_call OpUnlock g w = Some (LockGuard_Unlock g w)"

fun direct_call :: "lock_op \<Rightarrow> 'w MUTEX \<Rightarrow> 'w \<Rightarrow> 'w option" where
  "direct_call OpLock M w = M_Lock M w"
| "direct_call OpTryLock M w = Some (snd (M_TryLock M w))"
| "direct_call (OpTryLockFor timeout) M w = Some (snd (M_TryLockFor M timeout w))"
| "direct_call OpUnlock M w = Some (M_Unlock M w)"

fun step :: "kernel MUTEX \<Rightarrow> event \<Rightarrow> scene \<Rightarrow> scene option" where
  "step M (ByGuard t i c) (gs, k) =
     (if i < length gs then
        (case guard_call c (gs ! i) (k\<lparr>current := t\<rparr>) of
           None \<Rightarrow> None
         | Some (g', k') \<Rightarrow> Some (gs[i := g'], k'))
      else Some (gs, k))"
| "step M (Direct t c) (gs, k) =
     (case direct_call c M (k\<lparr>current := t\<rparr>) of
        None \<Rightarrow> None
      | Some k' \<Rightarrow> Some (gs, k'))"

fun run :: "kernel MUTEX \<Rightarrow> event list \<Rightarrow> scene \<Rightarrow> scene option" where
  "run M [] s = Some s"
| "run M (e # es) s = (case step M e s of None \<Rightarrow> None | Some s' \<Rightarrow> run M es s')"

text \<open>Which guards report \<open>OwnsLock()\<close>, and how many do.\<close>

definition ownership :: "scene \<Rightarrow> bool list" where
  "ownership s = map OwnsLock (fst s)"

definition owners :: "scene \<Rightarrow> nat" where
  "owners s = length (filter id (ownership s))"

text \<open>
  A run in which the mutex's own \<open>Unlock()\<close> is never called while some guard owns the
  lock.
\<close>

fun bypasses_guard :: "event \<Rightarrow> scene \<Rightarrow> bool" where
  "bypasses_guard (Direct t OpUnlock) s = (0 < owners s)"
| "bypasses_guard e s = False"

fun disciplined :: "kernel MUTEX \<Rightarrow> event list \<Rightarrow> scene \<Rightarrow> bool" where
  "disciplined M [] s = True"
| "disciplined M (e # es) s =
     (\<not> bypasses_guard e s \<and>
      (case step M e s of None \<Rightarrow> True | Some s' \<Rightarrow> disciplined M es s'))"

text \<open>\<open>n\<close> guards constructed with \<open>deferLock\<close> on the same mutex.\<close>

definition deferred_guards :: "'w MUTEX \<Rightarrow> 'w \<Rightarrow> nat \<Rightarrow> 'w LockGuard list" where
  "deferred_guards M w n = replicate n (fst (LockGuard_ctor_DeferLock M w))"

text \<open>
  The lock behind a handle is held by some task; and the invariant of a scene of guards on
  the mutex \<open>m\<close>: every guard refers to \<open>m\<close>, at most one guard owns the lock, and if
  one does, the lock is held.
\<close>

definition lock_held :: "kernel \<Rightarrow> NativeHdl \<Rightarrow> bool" where
  "lock_held k h = (case objects k h of None \<Rightarrow> False | Some s \<Rightarrow> holder s \<noteq> None)"

definition consistent :: "Mutex \<Rightarrow> scene \<Rightarrow> bool" where
  "consistent m s \<longleftrightarrow>
     (\<forall>g \<in> set (fst s). mutex g = Mutex_ops rtos m) \<and>
     owners s \<le> 1 \<and>
     (0 < owners s \<longrightarrow> lock_held (snd s) (Mutex_handle m))"

section \<open>Facts about the retry loop\<close>

lemma all_less_Suc_shift: "(\<forall>i<Suc n. P i) \<longleftrightarrow> P 0 \<and> (\<forall>i<n. P (Suc i))"
  by (metis less_Suc_eq_0_disj Suc_less_eq zero_less_Suc)

lemma succeeds_at_iff:
  "succeeds_at f n k k' \<longleftrightarrow>
   (\<forall>i<n. \<not> fst (f (after_attempts f i k))) \<and> f (after_attempts f n k) = (True, k')"
proof (induction n arbitrary: k)
  case 0
  show ?case by simp
next
  case (Suc n)
  have "succeeds_at f (Suc n) k k' \<longleftrightarrow> \<not> fst (f k) \<and> succeeds_at f n (snd (f k)) k'"
    by simp
  also have "\<dots> \<longleftrightarrow> \<not> fst (f k) \<and> (\<forall>i<n. \<not> fst (f (after_attempts f i (snd (f k))))) \<and>
                     f (after_attempts f n (snd (f k))) = (True, k')"
    by (simp only: Suc)
  also have "\<dots> \<longleftrightarrow> (\<forall>i<Suc n. \<not> fst (f (after_attempts f i k))) \<and>
                     f (after_attempts f (Suc n) k) = (True, k')"
    by (simp only: all_less_Suc_shift[where n=n] after_attempts.simps conj_assoc)
  finally show ?case .
qed

lemma Mutex_Lock_if_succeeds:
  "succeeds_at (Mutex_TryLockFor api m (GetMaxDelay api)) n k k' \<Longrightarrow>
   Mutex_Lock api m k = Some k'"
proof (induction n arbitrary: k)
  case 0
  then show ?case by (subst Mutex_Lock.simps) simp
next
  case (Suc n)
  obtain locked k1 where p: "Mutex_TryLockFor api m (GetMaxDelay api) k = (locked, k1)"
    by (cases "Mutex_TryLockFor api m (GetMaxDelay api) k")
  with Suc.prems have "\<not> locked"
    and "succeeds_at (Mutex_TryLockFor api m (GetMaxDelay api)) n k1 k'"
    by simp_all
  then have "Mutex_Lock api m k1 = Some k'" using Suc.IH by blast
  with p \<open>\<not> locked\<close> show ?case by (subst Mutex_Lock.simps) simp
qed

lemma Mutex_Lock_only_if:
  assumes "Mutex_Lock api m k = Some k'"
  shows "\<exists>n. succeeds_at (Mutex_TryLockFor api m (GetMaxDelay api)) n k k'"
  using assms
proof (rule Mutex_Lock.raw_induct [rotated,
        where P = "\<lambda>api m k k'.
          \<exists>n. succeeds_at (Mutex_TryLockFor api m (GetMaxDelay api)) n k k'"])
  fix f :: "'a native \<Rightarrow> Mutex \<Rightarrow> 'a \<Rightarrow> 'a option" and api m k k'
  assume IH: "\<And>api m k k'. f api m k = Some k' \<Longrightarrow>
                \<exists>n. succeeds_at (Mutex_TryLockFor api m (GetMaxDelay api)) n k k'"
    and body: "(case Mutex_TryLockFor api m (GetMaxDelay api) k of
                  (locked, k') \<Rightarrow> if \<not> locked then f api m k' else Some k') = Some k'"
  obtain locked k1 where p: "Mutex_TryLockFor api m (GetMaxDelay api) k = (locked, k1)"
    by (cases "Mutex_TryLockFor api m (GetMaxDelay api) k")
  show "\<exists>n. succeeds_at (Mutex_TryLockFor api m (GetMaxDelay api)) n k k'"
  proof (cases locked)
    case True
    with p body have "succeeds_at (Mutex_TryLockFor api m (GetMaxDelay api)) 0 k k'"
      by simp
    then show ?thesis ..
  next
    case False
    with p body have "f api m k1 = Some k'" by simp
    from IH[OF this] obtain n
      where "succeeds_at (Mutex_TryLockFor api m (GetMaxDelay api)) n k1 k'" ..
    with p False
    have "succeeds_at (Mutex_TryLockFor api m (GetMaxDelay api)) (Suc n) k k'" by simp
    then show ?thesis ..
  qed
qed

lemma Mutex_Lock_iff:
  "Mutex_Lock api m k = Some k' \<longleftrightarrow>
   (\<exists>n. succeeds_at (Mutex_TryLockFor api m (GetMaxDelay api)) n k k')"
  by (rule iffI) (erule Mutex_Lock_only_if, erule exE, erule Mutex_Lock_if_succeeds)

lemma RecursiveMutex_Lock_if_succeeds:
  "succeeds_at (RecursiveMutex_TryLockFor api m (GetMaxDelay api)) n k k' \<Longrightarrow>
   RecursiveMutex_Lock api m k = Some k'"
proof (induction n arbitrary: k)
  case 0
  then show ?case by (subst RecursiveMutex_Lock.simps) simp
next
  case (Suc n)
  obtain locked k1
    where p: "RecursiveMutex_TryLockFor api m (GetMaxDelay api) k = (locked, k1)"
    by (cases "RecursiveMutex_TryLockFor api m (GetMaxDelay api) k")
  with Suc.prems have "\<not> locked"
    and "succeeds_at (RecursiveMutex_TryLockFor api m (GetMaxDelay api)) n k1 k'"
    by simp_all
  then have "RecursiveMutex_Lock api m k1 = Some k'" using Suc.IH by blast
  with p \<open>\<not> locked\<close> show ?case by (subst RecursiveMutex_Lock.simps) simp
qed

lemma RecursiveMutex_Lock_only_if:
  assumes "RecursiveMutex_Lock api m k = Some k'"
  shows "\<exists>n. succeeds_at (RecursiveMutex_TryLockFor api m (GetMaxDelay api)) n k k'"
  using assms
proof (rule RecursiveMutex_Lock.raw_induct [rotated,
        where P = "\<lambda>api m k k'.
          \<exists>n. succeeds_at (RecursiveMutex_TryLockFor api m (GetMaxDelay api)) n k k'"])
  fix f :: "'a native \<Rightarrow> RecursiveMutex \<Rightarrow> 'a \<Rightarrow> 'a option" and api m k k'
  assume IH: "\<And>api m k k'. f api m k = Some k' \<Longrightarrow>
                \<exists>n. succeeds_at (RecursiveMutex_TryLockFor api m (GetMaxDelay api)) n k k'"
    and body: "(case RecursiveMutex_TryLockFor api m (GetMaxDelay api) k of
                  (locked, k') \<Rightarrow> if \<not> locked then f api m k' else Some k') = Some k'"
  obtain locked k1
    where p: "RecursiveMutex_TryLockFor api m (GetMaxDelay api) k = (locked, k1)"
    by (cases "RecursiveMutex_TryLockFor api m (GetMaxDelay api) k")
  show "\<exists>n. succeeds_at (RecursiveMutex_TryLockFor api m (GetMaxDelay api)) n k k'"
  proof (cases locked)
    case True
    with p body
    have "succeeds_at (RecursiveMutex_TryLockFor api m (GetMaxDelay api)) 0 k k'"
      by simp
    then show ?thesis ..
  next
    case False
    with p body have "f api m k1 = Some k'" by simp
    from IH[OF this] obtain n
      where "succeeds_at (RecursiveMutex_TryLockFor api m (GetMaxDelay api)) n k1 k'" ..
    with p False
    have "succeeds_at (RecursiveMutex_TryLockFor api m (GetMaxDelay api)) (Suc n) k k'"
      by simp
    then show ?thesis ..
  qed
qed

lemma RecursiveMutex_Lock_iff:
  "RecursiveMutex_Lock api m k = Some k' \<longleftrightarrow>
   (\<exists>n. succeeds_at (RecursiveMutex_TryLockFor api m (GetMaxDelay api)) n k k')"
  by (rule iffI)
     (erule RecursiveMutex_Lock_only_if, erule exE, erule RecursiveMutex_Lock_if_succeeds)

lemmas rtos_simps = rtos_def boot_def k_create_def k_take_def k_take_recursive_def k_give_def
  k_give_recursive_def k_holder_def k_delete_def called_def free_lock_def nullptr_def
  pdTRUE_def pdFALSE_def

section \<open>The blocking Lock\<close>

text \<open>
  Claim C5. \<open>Mutex::Lock()\<close>, and identically \<open>RecursiveMutex::Lock()\<close>, is a retry loop
  around \<open>TryLockFor(GetMaxDelay())\<close>, where \<open>GetMaxDelay()\<close> is the native block-forever
  value. The call returns, leaving the state \<open>k'\<close>, exactly when for some \<open>n\<close> the first
  \<open>n\<close> calls of \<open>TryLockFor(GetMaxDelay())\<close> return false and the next one returns true
  and leaves \<open>k'\<close>: so when \<open>Lock()\<close> returns, the last \<open>TryLockFor\<close> call succeeded, and
  \<open>Lock()\<close> does return as soon as one attempt succeeds.
\<close>

theorem Lock_returns_iff_an_attempt_succeeds:
  "(Mutex_Lock api m k = Some k' \<longleftrightarrow>
      (\<exists>n. (\<forall>i<n. \<not> fst (Mutex_TryLockFor api m (GetMaxDelay api)
                (after_attempts (Mutex_TryLockFor api m (GetMaxDelay api)) i k))) \<and>
           Mutex_TryLockFor api m (GetMaxDelay api)
             (after_attempts (Mutex_TryLockFor api m (GetMaxDelay api)) n k) = (True, k'))) \<and>
   (RecursiveMutex_Lock api r k = Some k' \<longleftrightarrow>
      (\<exists>n. (\<forall>i<n. \<not> fst (RecursiveMutex_TryLockFor api r (GetMaxDelay api)
                (after_attempts (RecursiveMutex_TryLockFor api r (GetMaxDelay api)) i k))) \<and>
           RecursiveMutex_TryLockFor api r (GetMaxDelay api)
             (after_attempts (RecursiveMutex_TryLockFor api r (GetMaxDelay api)) n k) =
             (True, k'))) \<and>
   GetMaxDelay api = portMAX_DELAY api"
  by (simp only: Mutex_Lock_iff RecursiveMutex_Lock_iff succeeds_at_iff GetMaxDelay_def
        simp_thms)

theorem Lock_returns_witness:
  "Mutex_Lock busy_port \<lparr>Mutex_handle = Suc 0\<rparr> 2 = Some 0 \<and>
   Mutex_Lock rtos \<lparr>Mutex_handle = Suc 0\<rparr> (snd (k_create CreateMutex (boot 0 1))) =
     Some \<lparr>current = 0, objects = [Suc 0 \<mapsto> \<lparr>holder = Some 0, holds = 1\<rparr>], heap_free = 0,
           created = Suc 0, calls = [CreateMutex, Take (Suc 0) (- 1)]\<rparr>"
proof -
  let ?B = "Mutex_TryLockFor busy_port \<lparr>Mutex_handle = Suc 0\<rparr> (GetMaxDelay busy_port)"
  have B: "\<And>n. ?B n = (n = 0, n - 1)"
    by (simp add: Mutex_TryLockFor_def busy_port_def pdTRUE_def pdFALSE_def)
  have "(\<forall>i<Suc (Suc 0). \<not> fst (?B (after_attempts ?B i 2))) \<and>
        ?B (after_attempts ?B (Suc (Suc 0)) 2) = (True, 0)"
    by (simp add: B less_Suc_eq)
  then have "\<exists>n. (\<forall>i<n. \<not> fst (?B (after_attempts ?B i 2))) \<and>
                 ?B (after_attempts ?B n 2) = (True, 0)"
    by (rule exI)
  then have retried: "Mutex_Lock busy_port \<lparr>Mutex_handle = Suc 0\<rparr> 2 = Some 0"
    using Lock_returns_iff_an_attempt_succeeds [of busy_port "\<lparr>Mutex_handle = Suc 0\<rparr>" 2 0]
    by blast
  let ?T = "Mutex_TryLockFor rtos \<lparr>Mutex_handle = Suc 0\<rparr> (GetMaxDelay rtos)"
  let ?k = "snd (k_create CreateMutex (boot 0 1))"
  let ?k' = "\<lparr>current = 0, objects = [Suc 0 \<mapsto> \<lparr>holder = Some 0, holds = 1\<rparr>],
              heap_free = 0, created = Suc 0, calls = [CreateMutex, Take (Suc 0) (- 1)]\<rparr>"
  have "(\<forall>i<(0::nat). \<not> fst (?T (after_attempts ?T i ?k))) \<and>
        ?T (after_attempts ?T 0 ?k) = (True, ?k')"
    by (simp add: Mutex_TryLockFor_def GetMaxDelay_def rtos_simps)
  then have "\<exists>n. (\<forall>i<n. \<not> fst (?T (after_attempts ?T i ?k))) \<and>
                 ?T (after_attempts ?T n ?k) = (True, ?k')"
    by (rule exI)
  then have "Mutex_Lock rtos \<lparr>Mutex_handle = Suc 0\<rparr> ?k = Some ?k'"
    using Lock_returns_iff_an_attempt_succeeds [of rtos "\<lparr>Mutex_handle = Suc 0\<rparr>" ?k ?k']
    by blast
  with retried show ?thesis by simp
qed

section \<open>Construction and destruction of the locks\<close>

text \<open>
  Claim C1, as amended. For both \<open>Mutex\<close> and \<open>RecursiveMutex\<close>: the constructor stores
  what the native allocation returns and then asserts that it is not null. In a build with
  \<open>NDEBUG\<close>, a failed allocation is surfaced only by \<open>IsValid()\<close>: the constructor
  returns an object with a null handle, in the state the native call left, and \<open>IsValid()\<close>
  is false. In a build without \<open>NDEBUG\<close> the assertion fails and the program aborts. For
  every instance, \<open>IsValid()\<close> is true exactly when the stored handle is not null. (No
  operation of either class assigns the handle after construction: the operations of the
  model take the object and return only the kernel state.)
\<close>

theorem ctor_failure_surfaced:
  "Mutex_ctor ndebug api k =
     (if \<not> ndebug \<and> fst (xSemaphoreCreateMutex api k) = nullptr
      then Inl (AssertionFailed ''Failed to create the mutex'')
      else Inr (\<lparr>Mutex_handle = fst (xSemaphoreCreateMutex api k)\<rparr>,
                snd (xSemaphoreCreateMutex api k))) \<and>
   RecursiveMutex_ctor ndebug api k =
     (if \<not> ndebug \<and> fst (xSemaphoreCreateRecursiveMutex api k) = nullptr
      then Inl (AssertionFailed ''Failed to create the recursive mutex'')
      else Inr (\<lparr>RecursiveMutex_handle = fst (xSemaphoreCreateRecursiveMutex api k)\<rparr>,
                snd (xSemaphoreCreateRecursiveMutex api k))) \<and>
   (ndebug \<and> fst (xSemaphoreCreateMutex api k) = nullptr \<longrightarrow>
      (\<exists>m. Mutex_ctor ndebug api k = Inr (m, snd (xSemaphoreCreateMutex api k)) \<and>
           Mutex_handle m = nullptr \<and> \<not> Mutex_IsValid m)) \<and>
   (ndebug \<and> fst (xSemaphoreCreateRecursiveMutex api k) = nullptr \<longrightarrow>
      (\<exists>r. RecursiveMutex_ctor ndebug api k =
             Inr (r, snd (xSemaphoreCreateRecursiveMutex api k)) \<and>
           RecursiveMutex_handle r = nullptr \<and> \<not> RecursiveMutex_IsValid r)) \<and>
   (Mutex_IsValid m \<longleftrightarrow> Mutex_handle m \<noteq> nullptr) \<and>
   (RecursiveMutex_IsValid r \<longleftrightarrow> RecursiveMutex_handle r \<noteq> nullptr)"
  by (auto simp: Mutex_ctor_def RecursiveMutex_ctor_def c_assert_def Mutex_IsValid_def
        RecursiveMutex_IsValid_def Let_def split: prod.splits)

theorem ctor_failure_witness:
  "Mutex_ctor True rtos (boot 0 0) =
     Inr (\<lparr>Mutex_handle = nullptr\<rparr>, called CreateMutex (boot 0 0)) \<and>
   \<not> Mutex_IsValid \<lparr>Mutex_handle = nullptr\<rparr> \<and>
   RecursiveMutex_ctor True rtos (boot 0 0) =
     Inr (\<lparr>RecursiveMutex_handle = nullptr\<rparr>, called CreateRecursiveMutex (boot 0 0)) \<and>
   \<not> RecursiveMutex_IsValid \<lparr>RecursiveMutex_handle = nullptr\<rparr>"
  using ctor_failure_surfaced [of True rtos "boot 0 0" "\<lparr>Mutex_handle = nullptr\<rparr>"
          "\<lparr>RecursiveMutex_handle = nullptr\<rparr>"]
  by (simp add: rtos_def k_create_def boot_def)

text \<open>
  The claim as stated fails in a build without \<open>NDEBUG\<close>: with no room left on the heap
  the native allocation returns null and both constructors abort in their assertion.
\<close>

theorem ctor_assert_counterexample:
  "fst (xSemaphoreCreateMutex rtos (boot 0 0)) = nullptr \<and>
   Mutex_ctor False rtos (boot 0 0) = Inl (AssertionFailed ''Failed to create the mutex'') \<and>
   fst (xSemaphoreCreateRecursiveMutex rtos (boot 0 0)) = nullptr \<and>
   RecursiveMutex_ctor False rtos (boot 0 0) =
     Inl (AssertionFailed ''Failed to create the recursive mutex'')"
  by (simp add: Mutex_ctor_def RecursiveMutex_ctor_def c_assert_def rtos_def k_create_def
        boot_def)

text \<open>
  Claim C10. Both destructors pass the stored handle to the native delete, whatever the
  handle is: for an instance that is not valid the native delete is called on the null
  handle. On the model kernel the call shows in the list of native calls.
\<close>

theorem dtor_deletes_unconditionally:
  "Mutex_dtor api m k = vSemaphoreDelete api (Mutex_handle m) k \<and>
   RecursiveMutex_dtor api r k = vSemaphoreDelete api (RecursiveMutex_handle r) k \<and>
   (\<not> Mutex_IsValid m \<longrightarrow> Mutex_dtor api m k = vSemaphoreDelete api nullptr k) \<and>
   (\<not> RecursiveMutex_IsValid r \<longrightarrow>
      RecursiveMutex_dtor api r k = vSemaphoreDelete api nullptr k) \<and>
   calls (Mutex_dtor rtos m kk) = calls kk @ [Delete (Mutex_handle m)] \<and>
   calls (RecursiveMutex_dtor rtos r kk) = calls kk @ [Delete (RecursiveMutex_handle r)]"
  by (simp add: Mutex_dtor_def RecursiveMutex_dtor_def Mutex_IsValid_def
        RecursiveMutex_IsValid_def rtos_def k_delete_def called_def split: option.splits)

theorem dtor_deletes_witness:
  "\<not> Mutex_IsValid \<lparr>Mutex_handle = nullptr\<rparr> \<and>
   Mutex_dtor rtos \<lparr>Mutex_handle = nullptr\<rparr> (called CreateMutex (boot 0 0)) =
     vSemaphoreDelete rtos nullptr (called CreateMutex (boot 0 0)) \<and>
   calls (Mutex_dtor rtos \<lparr>Mutex_handle = nullptr\<rparr> (called CreateMutex (boot 0 0))) =
     [CreateMutex, Delete nullptr] \<and>
   \<not> RecursiveMutex_IsValid \<lparr>RecursiveMutex_handle = nullptr\<rparr> \<and>
   calls (RecursiveMutex_dtor rtos \<lparr>RecursiveMutex_handle = nullptr\<rparr>
            (called CreateRecursiveMutex (boot 0 0))) =
     [CreateRecursiveMutex, Delete nullptr]"
  using dtor_deletes_unconditionally [where api = rtos and m = "\<lparr>Mutex_handle = nullptr\<rparr>"
          and k = "called CreateMutex (boot 0 0)"
          and r = "\<lparr>RecursiveMutex_handle = nullptr\<rparr>"
          and kk = "called CreateMutex (boot 0 0)"]
    dtor_deletes_unconditionally [where api = rtos and m = "\<lparr>Mutex_handle = nullptr\<rparr>"
          and k = "called CreateMutex (boot 0 0)"
          and r = "\<lparr>RecursiveMutex_handle = nullptr\<rparr>"
          and kk = "called CreateRecursiveMutex (boot 0 0)"]
  by (simp add: Mutex_IsValid_def RecursiveMutex_IsValid_def called_def boot_def rtos_def
        k_delete_def)

section \<open>The guard's state machine\<close>

lemmas guard_defs = LockGuard_Lock_def LockGuard_TryLock_def LockGuard_TryLockFor_def
  LockGuard_Unlock_def LockGuard_dtor_def OwnsLock_def LockGuard_ctor_def
  LockGuard_ctor_DeferLock_def LockGuard_ctor_TryToLock_def LockGuard_ctor_timeout_def

text \<open>
  Claim C2. Destroying a guard leaves the world as one call of the mutex's \<open>Unlock\<close>
  leaves it when the guard owns the lock, and untouched when it does not. On a recording
  mutex the call list grows by exactly one \<open>Unlock\<close> in the first case and not at all in
  the second. After the \<open>Unlock()\<close> that the destructor runs, the guard does not own the
  lock. (That the destructor runs on every exit path of the scope is the language's
  guarantee for automatic objects.)
\<close>

theorem dtor_unlocks_iff_owned:
  "LockGuard_dtor g w = (if OwnsLock g then M_Unlock (mutex g) w else w) \<and>
   LockGuard_dtor \<lparr>mutex = recording M, isLocked = b\<rparr> (v, cs) =
     (if b then (M_Unlock M v, cs @ [CallUnlock]) else (v, cs)) \<and>
   \<not> OwnsLock (fst (LockGuard_Unlock g w))"
  by (simp add: guard_defs recording_def)

theorem dtor_unlocks_witness:
  "OwnsLock \<lparr>mutex = recording (Mutex_ops rtos \<lparr>Mutex_handle = Suc 0\<rparr>), isLocked = True\<rparr> \<and>
   LockGuard_dtor \<lparr>mutex = recording (Mutex_ops rtos \<lparr>Mutex_handle = Suc 0\<rparr>), isLocked = True\<rparr>
     (boot 0 1, []) = (Mutex_Unlock rtos \<lparr>Mutex_handle = Suc 0\<rparr> (boot 0 1), [CallUnlock]) \<and>
   \<not> OwnsLock \<lparr>mutex = recording (Mutex_ops rtos \<lparr>Mutex_handle = Suc 0\<rparr>),
               isLocked = False\<rparr> \<and>
   LockGuard_dtor \<lparr>mutex = recording (Mutex_ops rtos \<lparr>Mutex_handle = Suc 0\<rparr>), isLocked = False\<rparr>
     (boot 0 1, []) = (boot 0 1, [])"
  using dtor_unlocks_iff_owned [where M = "Mutex_ops rtos \<lparr>Mutex_handle = Suc 0\<rparr>"
          and b = True and v = "boot 0 1" and cs = "[]" and w = "(boot 0 1, [])"
          and g = "\<lparr>mutex = recording (Mutex_ops rtos \<lparr>Mutex_handle = Suc 0\<rparr>),
                    isLocked = True\<rparr>"]
        dtor_unlocks_iff_owned [where M = "Mutex_ops rtos \<lparr>Mutex_handle = Suc 0\<rparr>"
          and b = False and v = "boot 0 1" and cs = "[]" and w = "(boot 0 1, [])"
          and g = "\<lparr>mutex = recording (Mutex_ops rtos \<lparr>Mutex_handle = Suc 0\<rparr>),
                    isLocked = False\<rparr>"]
  by (simp add: OwnsLock_def recording_def Mutex_ops_def)

text \<open>
  Claim C3. On a guard that owns the lock, \<open>Lock()\<close>, \<open>TryLock()\<close> and
  \<open>TryLockFor(timeout)\<close>, for every timeout, change neither the guard nor the world, so no
  operation of the underlying mutex is invoked (on a recording mutex the call list is part
  of the world); the flag stays true and the two try operations return true.
\<close>

theorem acquire_while_owned_is_noop:
  "OwnsLock g \<Longrightarrow>
     LockGuard_Lock g w = Some (g, w) \<and>
     LockGuard_TryLock g w = (True, g, w) \<and>
     (\<forall>timeout. LockGuard_TryLockFor g timeout w = (True, g, w))"
  by (simp add: guard_defs)

theorem acquire_while_owned_witness:
  "OwnsLock \<lparr>mutex = recording (Mutex_ops rtos \<lparr>Mutex_handle = Suc 0\<rparr>), isLocked = True\<rparr> \<and>
   LockGuard_Lock \<lparr>mutex = recording (Mutex_ops rtos \<lparr>Mutex_handle = Suc 0\<rparr>), isLocked = True\<rparr>
     (boot 0 1, []) =
     Some (\<lparr>mutex = recording (Mutex_ops rtos \<lparr>Mutex_handle = Suc 0\<rparr>), isLocked = True\<rparr>,
           (boot 0 1, [])) \<and>
   LockGuard_TryLock
     \<lparr>mutex = recording (Mutex_ops rtos \<lparr>Mutex_handle = Suc 0\<rparr>), isLocked = True\<rparr>
     (boot 0 1, []) =
     (True, \<lparr>mutex = recording (Mutex_ops rtos \<lparr>Mutex_handle = Suc 0\<rparr>), isLocked = True\<rparr>,
      (boot 0 1, [])) \<and>
   LockGuard_TryLockFor
     \<lparr>mutex = recording (Mutex_ops rtos \<lparr>Mutex_handle = Suc 0\<rparr>), isLocked = True\<rparr>
     5 (boot 0 1, []) =
     (True, \<lparr>mutex = recording (Mutex_ops rtos \<lparr>Mutex_handle = Suc 0\<rparr>), isLocked = True\<rparr>,
      (boot 0 1, []))"
proof -
  have h: "OwnsLock \<lparr>mutex = recording (Mutex_ops rtos \<lparr>Mutex_handle = Suc 0\<rparr>),
                     isLocked = True\<rparr>"
    by (simp add: OwnsLock_def)
  show ?thesis
    using h acquire_while_owned_is_noop [OF h, of "(boot 0 1, [])"] by simp
qed

text \<open>
  Claim C4. On a guard that does not own the lock, \<open>Unlock()\<close> changes neither the guard
  nor the world: the mutex's \<open>Unlock\<close> is not invoked. Hence a second \<open>Unlock()\<close> right
  after a first one changes nothing, whatever the guard's state was, and on a recording
  mutex the two calls together add one \<open>Unlock\<close> to the call list when the guard owned the
  lock and none otherwise.
\<close>

theorem unlock_while_unowned_is_noop:
  "(\<not> OwnsLock g \<longrightarrow> LockGuard_Unlock g w = (g, w)) \<and>
   LockGuard_Unlock (fst (LockGuard_Unlock g w)) (snd (LockGuard_Unlock g w)) =
     LockGuard_Unlock g w \<and>
   snd (snd (LockGuard_Unlock
              (fst (LockGuard_Unlock \<lparr>mutex = recording M, isLocked = b\<rparr> (v, cs)))
              (snd (LockGuard_Unlock \<lparr>mutex = recording M, isLocked = b\<rparr> (v, cs))))) =
     (if b then cs @ [CallUnlock] else cs)"
  by (simp add: guard_defs recording_def)

theorem unlock_while_unowned_witness:
  "\<not> OwnsLock \<lparr>mutex = recording (RecursiveMutex_ops rtos \<lparr>RecursiveMutex_handle = Suc 0\<rparr>),
               isLocked = False\<rparr> \<and>
   LockGuard_Unlock
     \<lparr>mutex = recording (RecursiveMutex_ops rtos \<lparr>RecursiveMutex_handle = Suc 0\<rparr>),
      isLocked = False\<rparr> (boot 0 1, []) =
     (\<lparr>mutex = recording (RecursiveMutex_ops rtos \<lparr>RecursiveMutex_handle = Suc 0\<rparr>),
       isLocked = False\<rparr>, (boot 0 1, []))"
proof -
  let ?g = "\<lparr>mutex = recording (RecursiveMutex_ops rtos \<lparr>RecursiveMutex_handle = Suc 0\<rparr>),
             isLocked = False\<rparr>"
  have h: "\<not> OwnsLock ?g" by (simp add: OwnsLock_def)
  show ?thesis
    using h unlock_while_unowned_is_noop [where g = ?g and w = "(boot 0 1, [])"
            and M = "RecursiveMutex_ops rtos \<lparr>RecursiveMutex_handle = Suc 0\<rparr>" and b = False
            and v = "boot 0 1" and cs = "[]"]
    by simp
qed

text \<open>
  Claim C7. The constructor taking only the mutex calls the guard's \<open>Lock()\<close> on a fresh
  guard: it returns exactly when the mutex's blocking \<open>Lock\<close> returns, with the flag set
  and in the state that \<open>Lock\<close> left, after exactly one call of \<open>Lock\<close>. So whenever
  construction returns, \<open>OwnsLock()\<close> is true; and for \<open>Mutex\<close> and \<open>RecursiveMutex\<close>,
  if the lock is eventually available (some attempt of the retry loop succeeds),
  construction does return, owning the lock.
\<close>

theorem immediate_ctor_owns:
  "LockGuard_ctor M w =
     (case M_Lock M w of None \<Rightarrow> None
      | Some w' \<Rightarrow> Some (\<lparr>mutex = M, isLocked = True\<rparr>, w')) \<and>
   (LockGuard_ctor M w = Some (g, w') \<longrightarrow> OwnsLock g \<and> M_Lock M w = Some w') \<and>
   (LockGuard_ctor (recording M) (v, cs) = Some (g', (v', cs')) \<longrightarrow>
      OwnsLock g' \<and> cs' = cs @ [CallLock]) \<and>
   (succeeds_at (Mutex_TryLockFor api m (GetMaxDelay api)) n k k' \<longrightarrow>
      LockGuard_ctor (Mutex_ops api m) k =
        Some (\<lparr>mutex = Mutex_ops api m, isLocked = True\<rparr>, k')) \<and>
   (succeeds_at (RecursiveMutex_TryLockFor api r (GetMaxDelay api)) n k k' \<longrightarrow>
      LockGuard_ctor (RecursiveMutex_ops api r) k =
        Some (\<lparr>mutex = RecursiveMutex_ops api r, isLocked = True\<rparr>, k'))"
  by (auto simp: guard_defs recording_def Mutex_ops_def RecursiveMutex_ops_def
        Mutex_Lock_if_succeeds RecursiveMutex_Lock_if_succeeds split: option.splits)

theorem immediate_ctor_witness:
  "LockGuard_ctor (Mutex_ops rtos \<lparr>Mutex_handle = Suc 0\<rparr>)
     (snd (k_create CreateMutex (boot 0 1))) =
     Some (\<lparr>mutex = Mutex_ops rtos \<lparr>Mutex_handle = Suc 0\<rparr>, isLocked = True\<rparr>,
           \<lparr>current = 0, objects = [Suc 0 \<mapsto> \<lparr>holder = Some 0, holds = 1\<rparr>], heap_free = 0,
            created = Suc 0, calls = [CreateMutex, Take (Suc 0) (- 1)]\<rparr>) \<and>
   OwnsLock \<lparr>mutex = Mutex_ops rtos \<lparr>Mutex_handle = Suc 0\<rparr>, isLocked = True\<rparr> \<and>
   LockGuard_ctor (recording (Mutex_ops rtos \<lparr>Mutex_handle = Suc 0\<rparr>))
     (snd (k_create CreateMutex (boot 0 1)), []) =
     Some (\<lparr>mutex = recording (Mutex_ops rtos \<lparr>Mutex_handle = Suc 0\<rparr>), isLocked = True\<rparr>,
           (\<lparr>current = 0, objects = [Suc 0 \<mapsto> \<lparr>holder = Some 0, holds = 1\<rparr>], heap_free = 0,
             created = Suc 0, calls = [CreateMutex, Take (Suc 0) (- 1)]\<rparr>, [CallLock])) \<and>
   LockGuard_ctor (RecursiveMutex_ops rtos \<lparr>RecursiveMutex_handle = Suc 0\<rparr>)
     (snd (k_create CreateRecursiveMutex (boot 0 1))) =
     Some (\<lparr>mutex = RecursiveMutex_ops rtos \<lparr>RecursiveMutex_handle = Suc 0\<rparr>,
            isLocked = True\<rparr>,
           \<lparr>current = 0, objects = [Suc 0 \<mapsto> \<lparr>holder = Some 0, holds = 1\<rparr>], heap_free = 0,
            created = Suc 0, calls = [CreateRecursiveMutex, TakeRecursive (Suc 0) (- 1)]\<rparr>)"
proof -
  let ?m = "\<lparr>Mutex_handle = Suc 0\<rparr>"
  let ?r = "\<lparr>RecursiveMutex_handle = Suc 0\<rparr>"
  let ?k = "snd (k_create CreateMutex (boot 0 1))"
  let ?k' = "\<lparr>current = 0, objects = [Suc 0 \<mapsto> \<lparr>holder = Some 0, holds = 1\<rparr>],
              heap_free = 0, created = Suc 0, calls = [CreateMutex, Take (Suc 0) (- 1)]\<rparr>"
  let ?j = "snd (k_create CreateRecursiveMutex (boot 0 1))"
  let ?j' = "\<lparr>current = 0, objects = [Suc 0 \<mapsto> \<lparr>holder = Some 0, holds = 1\<rparr>],
              heap_free = 0, created = Suc 0,
              calls = [CreateRecursiveMutex, TakeRecursive (Suc 0) (- 1)]\<rparr>"
  let ?g = "\<lparr>mutex = Mutex_ops rtos ?m, isLocked = True\<rparr>"
  let ?g' = "\<lparr>mutex = recording (Mutex_ops rtos ?m), isLocked = True\<rparr>"
  have a: "succeeds_at (Mutex_TryLockFor rtos ?m (GetMaxDelay rtos)) 0 ?k ?k'"
    by (simp add: Mutex_TryLockFor_def GetMaxDelay_def rtos_simps)
  have b: "succeeds_at (RecursiveMutex_TryLockFor rtos ?r (GetMaxDelay rtos)) 0 ?j ?j'"
    by (simp add: RecursiveMutex_TryLockFor_def GetMaxDelay_def rtos_simps)
  note t1 = immediate_ctor_owns [where M = "Mutex_ops rtos ?m" and w = ?k and g = ?g
      and w' = ?k' and v = ?k and cs = "[]" and g' = ?g' and v' = ?k' and cs' = "[CallLock]"
      and api = rtos and m = ?m and n = 0 and k = ?k and k' = ?k' and r = ?r]
  note t2 = immediate_ctor_owns [where M = "Mutex_ops rtos ?m" and w = ?k and g = ?g
      and w' = ?k' and v = ?k and cs = "[]" and g' = ?g' and v' = ?k' and cs' = "[CallLock]"
      and api = rtos and m = ?m and n = 0 and k = ?j and k' = ?j' and r = ?r]
  from t1 a have c1: "LockGuard_ctor (Mutex_ops rtos ?m) ?k = Some (?g, ?k')" by blast
  with t1 have c2: "OwnsLock ?g" and l: "M_Lock (Mutex_ops rtos ?m) ?k = Some ?k'"
    by blast+
  from l have "LockGuard_ctor (recording (Mutex_ops rtos ?m)) (?k, []) =
                 Some (?g', (?k', [CallLock]))"
    by (simp add: LockGuard_ctor_def LockGuard_Lock_def OwnsLock_def recording_def)
  moreover from t2 b have "LockGuard_ctor (RecursiveMutex_ops rtos ?r) ?j =
     Some (\<lparr>mutex = RecursiveMutex_ops rtos ?r, isLocked = True\<rparr>, ?j')" by blast
  ultimately show ?thesis using c1 c2 by simp
qed

section \<open>The wrappers on the model kernel\<close>

lemma Mutex_ops_sel [simp]:
  "M_Lock (Mutex_ops api m) = Mutex_Lock api m"
  "M_TryLock (Mutex_ops api m) = Mutex_TryLock api m"
  "M_TryLockFor (Mutex_ops api m) = Mutex_TryLockFor api m"
  "M_Unlock (Mutex_ops api m) = Mutex_Unlock api m"
  by (simp_all add: Mutex_ops_def)

lemma RecursiveMutex_ops_sel [simp]:
  "M_Lock (RecursiveMutex_ops api m) = RecursiveMutex_Lock api m"
  "M_TryLock (RecursiveMutex_ops api m) = RecursiveMutex_TryLock api m"
  "M_TryLockFor (RecursiveMutex_ops api m) = RecursiveMutex_TryLockFor api m"
  "M_Unlock (RecursiveMutex_ops api m) = RecursiveMutex_Unlock api m"
  by (simp_all add: RecursiveMutex_ops_def)

lemma Mutex_TryLockFor_rtos:
  "Mutex_TryLockFor rtos m timeout k =
     (case objects k (Mutex_handle m) of
        None \<Rightarrow> (False, called (Take (Mutex_handle m) timeout) k)
      | Some s \<Rightarrow>
          if holder s = None then
            (True, (called (Take (Mutex_handle m) timeout) k)
               \<lparr>objects := (objects k)(Mutex_handle m \<mapsto> \<lparr>holder = Some (current k), holds = 1\<rparr>)\<rparr>)
          else (False, called (Take (Mutex_handle m) timeout) k))"
  by (simp add: Mutex_TryLockFor_def rtos_def k_take_def pdTRUE_def pdFALSE_def
        split: option.splits)

lemma RecursiveMutex_TryLockFor_rtos:
  "RecursiveMutex_TryLockFor rtos r timeout k =
     (case objects k (RecursiveMutex_handle r) of
        None \<Rightarrow> (False, called (TakeRecursive (RecursiveMutex_handle r) timeout) k)
      | Some s \<Rightarrow>
          if holder s = None then
            (True, (called (TakeRecursive (RecursiveMutex_handle r) timeout) k)
               \<lparr>objects := (objects k)(RecursiveMutex_handle r \<mapsto>
                    \<lparr>holder = Some (current k), holds = 1\<rparr>)\<rparr>)
          else if holder s = Some (current k) then
            (True, (called (TakeRecursive (RecursiveMutex_handle r) timeout) k)
               \<lparr>objects := (objects k)(RecursiveMutex_handle r \<mapsto> s\<lparr>holds := Suc (holds s)\<rparr>)\<rparr>)
          else (False, called (TakeRecursive (RecursiveMutex_handle r) timeout) k))"
  by (simp add: RecursiveMutex_TryLockFor_def rtos_def k_take_recursive_def pdTRUE_def
        pdFALSE_def split: option.splits)

lemma called_sel [simp]:
  "objects (called c k) = objects k"
  "current (called c k) = current k"
  "calls (called c k) = calls k @ [c]"
  by (simp_all add: called_def)

lemma RecursiveMutex_Lock_first_attempt:
  "fst (RecursiveMutex_TryLockFor api r (GetMaxDelay api) k) \<Longrightarrow>
   RecursiveMutex_Lock api r k = Some (snd (RecursiveMutex_TryLockFor api r (GetMaxDelay api) k))"
  by (subst RecursiveMutex_Lock.simps) (auto split: prod.splits)

lemma RecursiveMutex_Unlock_rtos:
  "RecursiveMutex_Unlock rtos r k =
     (case objects k (RecursiveMutex_handle r) of
        None \<Rightarrow> called (GiveRecursive (RecursiveMutex_handle r)) k
      | Some s \<Rightarrow>
          if holder s = Some (current k) then
            (called (GiveRecursive (RecursiveMutex_handle r)) k)
               \<lparr>objects := (objects k)(RecursiveMutex_handle r \<mapsto>
                   (if holds s \<le> 1 then free_lock else s\<lparr>holds := holds s - 1\<rparr>))\<rparr>
          else called (GiveRecursive (RecursiveMutex_handle r)) k)"
  by (simp add: RecursiveMutex_Unlock_def rtos_def k_give_recursive_def split: option.splits)

lemma RecursiveMutex_IsLocked_rtos:
  "fst (RecursiveMutex_IsLocked rtos r k) \<longleftrightarrow>
     (\<exists>s t. objects k (RecursiveMutex_handle r) = Some s \<and> holder s = Some t)"
  by (auto simp: RecursiveMutex_IsLocked_def rtos_def k_holder_def nullptr_def
        split: option.splits)

section \<open>The try-once constructor\<close>

text \<open>
  Claim C8. The constructor taking the \<open>tryToLock\<close> tag calls the mutex's \<open>TryLock\<close>
  exactly once and stores its result in the flag, whatever the result is. For \<open>Mutex\<close>
  and \<open>RecursiveMutex\<close> on the model kernel the state it leaves differs from the one it
  found by exactly one native take with timeout zero and, if the take succeeded, by the
  lock now being held by the running task. Against a non-recursive lock held by any task,
  and against a recursive lock held by another task, the guard does not own the lock
  afterwards; against a free lock of either kind it does.
\<close>

theorem try_ctor_single_attempt:
  "LockGuard_ctor_TryToLock (recording M) (v, cs) =
     (\<lparr>mutex = recording M, isLocked = fst (M_TryLock M v)\<rparr>,
      (snd (M_TryLock M v), cs @ [CallTryLock])) \<and>
   (objects k (Mutex_handle m) = Some s \<and> holder s \<noteq> None \<longrightarrow>
      \<not> OwnsLock (fst (LockGuard_ctor_TryToLock (Mutex_ops rtos m) k)) \<and>
      snd (LockGuard_ctor_TryToLock (Mutex_ops rtos m) k) = called (Take (Mutex_handle m) 0) k) \<and>
   (objects k (Mutex_handle m) = Some s \<and> holder s = None \<longrightarrow>
      OwnsLock (fst (LockGuard_ctor_TryToLock (Mutex_ops rtos m) k)) \<and>
      snd (LockGuard_ctor_TryToLock (Mutex_ops rtos m) k) =
        (called (Take (Mutex_handle m) 0) k)
          \<lparr>objects := (objects k)(Mutex_handle m \<mapsto> \<lparr>holder = Some (current k), holds = 1\<rparr>)\<rparr>) \<and>
   (objects k (RecursiveMutex_handle r) = Some s \<and> holder s = Some t \<and> t \<noteq> current k \<longrightarrow>
      \<not> OwnsLock (fst (LockGuard_ctor_TryToLock (RecursiveMutex_ops rtos r) k)) \<and>
      snd (LockGuard_ctor_TryToLock (RecursiveMutex_ops rtos r) k) =
        called (TakeRecursive (RecursiveMutex_handle r) 0) k) \<and>
   (objects k (RecursiveMutex_handle r) = Some s \<and> holder s = None \<longrightarrow>
      OwnsLock (fst (LockGuard_ctor_TryToLock (RecursiveMutex_ops rtos r) k)) \<and>
      snd (LockGuard_ctor_TryToLock (RecursiveMutex_ops rtos r) k) =
        (called (TakeRecursive (RecursiveMutex_handle r) 0) k)
          \<lparr>objects := (objects k)(RecursiveMutex_handle r \<mapsto>
               \<lparr>holder = Some (current k), holds = 1\<rparr>)\<rparr>)"
  by (auto simp: guard_defs recording_def Mutex_TryLock_def RecursiveMutex_TryLock_def
        Mutex_TryLockFor_rtos RecursiveMutex_TryLockFor_rtos split: prod.splits)

theorem try_ctor_witness:
  "\<not> OwnsLock (fst (LockGuard_ctor_TryToLock (Mutex_ops rtos \<lparr>Mutex_handle = Suc 0\<rparr>)
       \<lparr>current = 1, objects = [Suc 0 \<mapsto> \<lparr>holder = Some 0, holds = 1\<rparr>], heap_free = 0,
        created = Suc 0, calls = []\<rparr>)) \<and>
   calls (snd (LockGuard_ctor_TryToLock (Mutex_ops rtos \<lparr>Mutex_handle = Suc 0\<rparr>)
       \<lparr>current = 1, objects = [Suc 0 \<mapsto> \<lparr>holder = Some 0, holds = 1\<rparr>], heap_free = 0,
        created = Suc 0, calls = []\<rparr>)) = [Take (Suc 0) 0] \<and>
   OwnsLock (fst (LockGuard_ctor_TryToLock (Mutex_ops rtos \<lparr>Mutex_handle = Suc 0\<rparr>)
       \<lparr>current = 1, objects = [Suc 0 \<mapsto> \<lparr>holder = None, holds = 0\<rparr>], heap_free = 0,
        created = Suc 0, calls = []\<rparr>)) \<and>
   \<not> OwnsLock (fst (LockGuard_ctor_TryToLock
       (RecursiveMutex_ops rtos \<lparr>RecursiveMutex_handle = Suc 0\<rparr>)
       \<lparr>current = 1, objects = [Suc 0 \<mapsto> \<lparr>holder = Some 0, holds = 1\<rparr>], heap_free = 0,
        created = Suc 0, calls = []\<rparr>)) \<and>
   OwnsLock (fst (LockGuard_ctor_TryToLock
       (RecursiveMutex_ops rtos \<lparr>RecursiveMutex_handle = Suc 0\<rparr>)
       \<lparr>current = 1, objects = [Suc 0 \<mapsto> \<lparr>holder = None, holds = 0\<rparr>], heap_free = 0,
        created = Suc 0, calls = []\<rparr>))"
proof -
  let ?held = "\<lparr>current = 1, objects = [Suc 0 \<mapsto> \<lparr>holder = Some 0, holds = 1\<rparr>],
                heap_free = 0, created = Suc 0, calls = []\<rparr>"
  let ?free = "\<lparr>current = 1, objects = [Suc 0 \<mapsto> \<lparr>holder = None, holds = 0\<rparr>],
                heap_free = 0, created = Suc 0, calls = []\<rparr>"
  note a = try_ctor_single_attempt [where k = ?held and m = "\<lparr>Mutex_handle = Suc 0\<rparr>"
      and r = "\<lparr>RecursiveMutex_handle = Suc 0\<rparr>" and s = "\<lparr>holder = Some 0, holds = 1\<rparr>"
      and t = 0 and M = "Mutex_ops rtos \<lparr>Mutex_handle = Suc 0\<rparr>" and v = ?held and cs = "[]"]
  note b = try_ctor_single_attempt [where k = ?free and m = "\<lparr>Mutex_handle = Suc 0\<rparr>"
      and r = "\<lparr>RecursiveMutex_handle = Suc 0\<rparr>" and s = "\<lparr>holder = None, holds = 0\<rparr>"
      and t = 0 and M = "Mutex_ops rtos \<lparr>Mutex_handle = Suc 0\<rparr>" and v = ?free and cs = "[]"]
  from a b show ?thesis by (simp add: called_def)
qed

section \<open>Recursive acquisition\<close>

lemma acquire_with_recursive:
  assumes "objects k (RecursiveMutex_handle r) =
             Some (if c = 0 then free_lock else \<lparr>holder = Some (current k), holds = c\<rparr>)"
  shows "\<exists>k'. acquire_with (RecursiveMutex_ops rtos r) a k = Some (True, k') \<and>
              objects k' (RecursiveMutex_handle r) =
                Some \<lparr>holder = Some (current k), holds = Suc c\<rparr> \<and>
              current k' = current k"
proof -
  have t: "\<And>timeout. fst (RecursiveMutex_TryLockFor rtos r timeout k) \<and>
      objects (snd (RecursiveMutex_TryLockFor rtos r timeout k)) (RecursiveMutex_handle r) =
        Some \<lparr>holder = Some (current k), holds = Suc c\<rparr> \<and>
      current (snd (RecursiveMutex_TryLockFor rtos r timeout k)) = current k"
    using assms by (simp add: RecursiveMutex_TryLockFor_rtos free_lock_def)
  show ?thesis
  proof (cases a)
    case ByLock
    then show ?thesis
      using t[of "GetMaxDelay rtos"] RecursiveMutex_Lock_first_attempt[of rtos r k] by simp
  next
    case ByTryLock
    then show ?thesis
      using t[of 0] by (simp add: RecursiveMutex_TryLock_def prod_eq_iff)
  next
    case (ByTryLockFor timeout)
    then show ?thesis
      using t[of timeout] by (simp add: prod_eq_iff)
  qed
qed

lemma acquire_all_recursive:
  assumes "objects k (RecursiveMutex_handle r) =
             Some (if c = 0 then free_lock else \<lparr>holder = Some (current k), holds = c\<rparr>)"
  shows "\<exists>k'. acquire_all (RecursiveMutex_ops rtos r) as k = Some (replicate (length as) True, k') \<and>
              objects k' (RecursiveMutex_handle r) =
                Some (if c + length as = 0 then free_lock
                      else \<lparr>holder = Some (current k), holds = c + length as\<rparr>) \<and>
              current k' = current k"
  using assms
proof (induction as arbitrary: k c)
  case Nil
  then show ?case by simp
next
  case (Cons a as)
  from acquire_with_recursive[OF Cons.prems, of a] obtain k1 where
    a: "acquire_with (RecursiveMutex_ops rtos r) a k = Some (True, k1)"
    and o: "objects k1 (RecursiveMutex_handle r) = Some \<lparr>holder = Some (current k), holds = Suc c\<rparr>"
    and cur: "current k1 = current k" by blast
  from o cur have "objects k1 (RecursiveMutex_handle r) =
      Some (if Suc c = 0 then free_lock else \<lparr>holder = Some (current k1), holds = Suc c\<rparr>)"
    by simp
  from Cons.IH[OF this] obtain k' where
    "acquire_all (RecursiveMutex_ops rtos r) as k1 = Some (replicate (length as) True, k')"
    "objects k' (RecursiveMutex_handle r) =
       Some (if Suc c + length as = 0 then free_lock
             else \<lparr>holder = Some (current k1), holds = Suc c + length as\<rparr>)"
    "current k' = current k1" by blast
  with a cur show ?case by simp
qed

lemma unlock_times_recursive:
  assumes "objects k (RecursiveMutex_handle r) =
             Some (if c = 0 then free_lock else \<lparr>holder = Some (current k), holds = c\<rparr>)"
  shows "objects (unlock_times (RecursiveMutex_ops rtos r) j k) (RecursiveMutex_handle r) =
           Some (if c - j = 0 then free_lock else \<lparr>holder = Some (current k), holds = c - j\<rparr>) \<and>
         current (unlock_times (RecursiveMutex_ops rtos r) j k) = current k"
  using assms
proof (induction j arbitrary: k c)
  case 0
  then show ?case by simp
next
  case (Suc j)
  let ?k1 = "RecursiveMutex_Unlock rtos r k"
  from Suc.prems have
    "objects ?k1 (RecursiveMutex_handle r) =
       Some (if c - 1 = 0 then free_lock else \<lparr>holder = Some (current ?k1), holds = c - 1\<rparr>)"
    and cur: "current ?k1 = current k"
    by (auto simp: RecursiveMutex_Unlock_rtos free_lock_def)
  from Suc.IH[OF this(1)] cur show ?case by simp
qed

lemma RecursiveMutex_TryLock_other_task:
  assumes "objects k (RecursiveMutex_handle r) =
             Some (if c = 0 then free_lock else \<lparr>holder = Some cur, holds = c\<rparr>)"
    and "t \<noteq> cur"
  shows "fst (RecursiveMutex_TryLock rtos r (k\<lparr>current := t\<rparr>)) \<longleftrightarrow> c = 0"
  using assms
  by (simp add: RecursiveMutex_TryLock_def RecursiveMutex_TryLockFor_rtos free_lock_def)

lemma RecursiveMutex_IsLocked_count:
  assumes "objects k (RecursiveMutex_handle r) =
             Some (if c = 0 then free_lock else \<lparr>holder = Some cur, holds = c\<rparr>)"
  shows "fst (RecursiveMutex_IsLocked rtos r k) \<longleftrightarrow> 0 < c"
  using assms by (simp add: RecursiveMutex_IsLocked_rtos free_lock_def)

text \<open>
  Claim C6. On a \<open>RecursiveMutex\<close> that is free (\<open>c = 0\<close>) or already held \<open>c\<close> times
  by the running task, that task makes \<open>N\<close> further acquisitions, each by \<open>Lock()\<close>,
  \<open>TryLock()\<close> or \<open>TryLockFor(timeout)\<close>. Every call succeeds, and after the first
  \<open>i\<close> of them the hold count is \<open>c + i\<close>. After \<open>j\<close> calls of \<open>Unlock()\<close> the hold
  count is \<open>c + N - j\<close>, \<open>IsLocked()\<close> is true exactly when \<open>j < c + N\<close>, and the
  \<open>TryLock()\<close> of any other task succeeds exactly when \<open>c + N \<le> j\<close>. Counting all the
  acquisitions since the lock was free (\<open>c = 0\<close>), the lock is reported unlocked and
  available to other tasks after exactly \<open>N\<close> calls of \<open>Unlock()\<close> and not before.
\<close>

theorem recursive_hold_count:
  assumes "objects k (RecursiveMutex_handle r) =
             Some (if c = 0 then free_lock else \<lparr>holder = Some (current k), holds = c\<rparr>)"
  shows "\<exists>k'. acquire_all (RecursiveMutex_ops rtos r) as k =
                Some (replicate (length as) True, k') \<and>
          (\<forall>i\<le>length as. \<exists>ki.
              acquire_all (RecursiveMutex_ops rtos r) (take i as) k =
                Some (replicate i True, ki) \<and>
              map_option holds (objects ki (RecursiveMutex_handle r)) = Some (c + i)) \<and>
          (\<forall>j. map_option holds
                 (objects (unlock_times (RecursiveMutex_ops rtos r) j k')
                    (RecursiveMutex_handle r)) = Some (c + length as - j)) \<and>
          (\<forall>j. fst (RecursiveMutex_IsLocked rtos r
                      (unlock_times (RecursiveMutex_ops rtos r) j k')) \<longleftrightarrow>
               j < c + length as) \<and>
          (\<forall>j t. t \<noteq> current k \<longrightarrow>
             (fst (RecursiveMutex_TryLock rtos r
                    ((unlock_times (RecursiveMutex_ops rtos r) j k')\<lparr>current := t\<rparr>)) \<longleftrightarrow>
              c + length as \<le> j))"
proof -
  let ?M = "RecursiveMutex_ops rtos r" and ?h = "RecursiveMutex_handle r"
  from acquire_all_recursive[OF assms, of as] obtain k' where
    all: "acquire_all ?M as k = Some (replicate (length as) True, k')"
    and o': "objects k' ?h =
               Some (if c + length as = 0 then free_lock
                     else \<lparr>holder = Some (current k), holds = c + length as\<rparr>)"
    and cur': "current k' = current k" by blast
  have pre: "\<forall>i\<le>length as. \<exists>ki.
               acquire_all ?M (take i as) k = Some (replicate i True, ki) \<and>
               map_option holds (objects ki ?h) = Some (c + i)"
  proof (intro allI impI)
    fix i assume "i \<le> length as"
    from acquire_all_recursive[OF assms, of "take i as"] \<open>i \<le> length as\<close>
    obtain ki where "acquire_all ?M (take i as) k = Some (replicate i True, ki)"
      and "objects ki ?h = Some (if c + i = 0 then free_lock
                                 else \<lparr>holder = Some (current k), holds = c + i\<rparr>)"
      by (auto simp: min_def)
    then show "\<exists>ki. acquire_all ?M (take i as) k = Some (replicate i True, ki) \<and>
                    map_option holds (objects ki ?h) = Some (c + i)"
      by (auto simp: free_lock_def)
  qed
  from o' cur' have o'': "objects k' ?h =
      Some (if c + length as = 0 then free_lock
            else \<lparr>holder = Some (current k'), holds = c + length as\<rparr>)" by simp
  have after: "\<And>j. objects (unlock_times ?M j k') ?h =
      Some (if c + length as - j = 0 then free_lock
            else \<lparr>holder = Some (current k), holds = c + length as - j\<rparr>)"
    using unlock_times_recursive[OF o''] cur' by simp
  have cnt: "\<forall>j. map_option holds (objects (unlock_times ?M j k') ?h) =
                  Some (c + length as - j)"
    by (simp add: after free_lock_def)
  have locked: "\<forall>j. fst (RecursiveMutex_IsLocked rtos r (unlock_times ?M j k')) \<longleftrightarrow>
                    j < c + length as"
    using RecursiveMutex_IsLocked_count[OF after] by auto
  have others: "\<forall>j t. t \<noteq> current k \<longrightarrow>
      (fst (RecursiveMutex_TryLock rtos r ((unlock_times ?M j k')\<lparr>current := t\<rparr>)) \<longleftrightarrow>
       c + length as \<le> j)"
    using RecursiveMutex_TryLock_other_task[OF after] by auto
  from all pre cnt locked others show ?thesis by blast
qed

theorem recursive_hold_count_witness:
  "\<exists>k'. acquire_all (RecursiveMutex_ops rtos \<lparr>RecursiveMutex_handle = Suc 0\<rparr>)
           [ByLock, ByTryLock, ByTryLockFor 7] (snd (k_create CreateRecursiveMutex (boot 0 1))) =
           Some ([True, True, True], k') \<and>
         fst (RecursiveMutex_IsLocked rtos \<lparr>RecursiveMutex_handle = Suc 0\<rparr>
                (unlock_times (RecursiveMutex_ops rtos \<lparr>RecursiveMutex_handle = Suc 0\<rparr>) 2 k')) \<and>
         \<not> fst (RecursiveMutex_IsLocked rtos \<lparr>RecursiveMutex_handle = Suc 0\<rparr>
                (unlock_times (RecursiveMutex_ops rtos \<lparr>RecursiveMutex_handle = Suc 0\<rparr>) 3 k')) \<and>
         \<not> fst (RecursiveMutex_TryLock rtos \<lparr>RecursiveMutex_handle = Suc 0\<rparr>
                ((unlock_times (RecursiveMutex_ops rtos \<lparr>RecursiveMutex_handle = Suc 0\<rparr>) 2 k')
                   \<lparr>current := 1\<rparr>)) \<and>
         fst (RecursiveMutex_TryLock rtos \<lparr>RecursiveMutex_handle = Suc 0\<rparr>
                ((unlock_times (RecursiveMutex_ops rtos \<lparr>RecursiveMutex_handle = Suc 0\<rparr>) 3 k')
                   \<lparr>current := 1\<rparr>))"
proof -
  let ?r = "\<lparr>RecursiveMutex_handle = Suc 0\<rparr>"
  let ?k = "snd (k_create CreateRecursiveMutex (boot 0 1))"
  have h: "objects ?k (RecursiveMutex_handle ?r) =
             Some (if (0::nat) = 0 then free_lock
                   else \<lparr>holder = Some (current ?k), holds = 0\<rparr>)"
    by (simp add: k_create_def boot_def called_def)
  have c: "current ?k = 0" by (simp add: k_create_def boot_def called_def)
  let ?M = "RecursiveMutex_ops rtos ?r"
  from recursive_hold_count [OF h, of "[ByLock, ByTryLock, ByTryLockFor 7]"]
  obtain k' where
    a: "acquire_all ?M [ByLock, ByTryLock, ByTryLockFor 7] ?k =
          Some (replicate (length [ByLock, ByTryLock, ByTryLockFor 7]) True, k')"
    and l: "\<forall>j. fst (RecursiveMutex_IsLocked rtos ?r (unlock_times ?M j k')) \<longleftrightarrow>
                j < 0 + length [ByLock, ByTryLock, ByTryLockFor 7]"
    and o: "\<forall>j t. t \<noteq> current ?k \<longrightarrow>
              (fst (RecursiveMutex_TryLock rtos ?r ((unlock_times ?M j k')\<lparr>current := t\<rparr>)) \<longleftrightarrow>
               0 + length [ByLock, ByTryLock, ByTryLockFor 7] \<le> j)"
    by blast
  from a have a': "acquire_all ?M [ByLock, ByTryLock, ByTryLockFor 7] ?k =
                     Some ([True, True, True], k')"
    by (simp add: numeral_3_eq_3)
  from l have l2: "fst (RecursiveMutex_IsLocked rtos ?r (unlock_times ?M 2 k'))"
    and l3: "\<not> fst (RecursiveMutex_IsLocked rtos ?r (unlock_times ?M 3 k'))"
    by simp_all
  from o c have o2: "\<not> fst (RecursiveMutex_TryLock rtos ?r
                              ((unlock_times ?M 2 k')\<lparr>current := 1\<rparr>))"
    and o3: "fst (RecursiveMutex_TryLock rtos ?r ((unlock_times ?M 3 k')\<lparr>current := 1\<rparr>))"
    by simp_all
  from a' l2 l3 o2 o3 show ?thesis by blast
qed

section \<open>Several guards on one non-recursive mutex\<close>

lemma owners_update:
  assumes "i < length gs"
  shows "owners (gs[i := g'], k') + (if OwnsLock (gs ! i) then 1 else 0) =
         owners (gs, k) + (if OwnsLock g' then 1 else 0)"
proof -
  have a: "gs = take i gs @ gs ! i # drop (Suc i) gs"
    using assms by (simp add: id_take_nth_drop)
  have b: "gs[i := g'] = take i gs @ g' # drop (Suc i) gs"
    using assms by (simp add: upd_conv_take_nth_drop)
  have "owners (gs, k) =
        owners (take i gs, k) + (if OwnsLock (gs ! i) then 1 else 0) +
        owners (drop (Suc i) gs, k)"
    by (subst a) (simp add: owners_def ownership_def)
  moreover have "owners (gs[i := g'], k') =
        owners (take i gs, k) + (if OwnsLock g' then 1 else 0) + owners (drop (Suc i) gs, k)"
    by (subst b) (simp add: owners_def ownership_def)
  ultimately show ?thesis by simp
qed

lemma lock_held_current [simp]: "lock_held (k\<lparr>current := t\<rparr>) h = lock_held k h"
  by (simp add: lock_held_def)

lemma owners_kernel: "owners (gs, k) = owners (gs, k')"
  by (simp add: owners_def ownership_def)

lemma Mutex_TryLockFor_held:
  "(fst (Mutex_TryLockFor rtos m timeout k) \<longrightarrow>
      \<not> lock_held k (Mutex_handle m) \<and>
      lock_held (snd (Mutex_TryLockFor rtos m timeout k)) (Mutex_handle m)) \<and>
   (\<not> fst (Mutex_TryLockFor rtos m timeout k) \<longrightarrow>
      lock_held (snd (Mutex_TryLockFor rtos m timeout k)) (Mutex_handle m) =
      lock_held k (Mutex_handle m))"
  by (simp add: Mutex_TryLockFor_rtos lock_held_def split: option.splits)

lemma succeeds_at_held:
  "succeeds_at (Mutex_TryLockFor rtos m timeout) n k k' \<Longrightarrow>
   \<not> lock_held k (Mutex_handle m) \<and> lock_held k' (Mutex_handle m)"
proof (induction n arbitrary: k)
  case 0
  then show ?case
    using Mutex_TryLockFor_held[of m timeout k] by simp
next
  case (Suc n)
  from Suc.prems have f: "\<not> fst (Mutex_TryLockFor rtos m timeout k)"
    and s: "succeeds_at (Mutex_TryLockFor rtos m timeout) n
              (snd (Mutex_TryLockFor rtos m timeout k)) k'"
    by simp_all
  from Suc.IH[OF s] f Mutex_TryLockFor_held[of m timeout k] show ?case by simp
qed

lemma Mutex_Lock_held:
  assumes "Mutex_Lock rtos m k = Some k'"
  shows "\<not> lock_held k (Mutex_handle m) \<and> lock_held k' (Mutex_handle m)"
proof -
  from Mutex_Lock_only_if[OF assms] obtain n
    where "succeeds_at (Mutex_TryLockFor rtos m (GetMaxDelay rtos)) n k k'" ..
  then show ?thesis by (rule succeeds_at_held)
qed

lemma guard_call_effect:
  assumes "guard_call c g k = Some (g', k')" and "mutex g = Mutex_ops rtos m"
  shows "mutex g' = Mutex_ops rtos m \<and>
         (\<not> OwnsLock g \<and> OwnsLock g' \<longrightarrow>
            \<not> lock_held k (Mutex_handle m) \<and> lock_held k' (Mutex_handle m)) \<and>
         (OwnsLock g \<and> OwnsLock g' \<longrightarrow> k' = k) \<and>
         (\<not> OwnsLock g \<and> \<not> OwnsLock g' \<longrightarrow>
            lock_held k' (Mutex_handle m) = lock_held k (Mutex_handle m))"
proof (cases c)
  case OpLock
  then show ?thesis
    using assms Mutex_Lock_held[of m k]
    by (auto simp: guard_defs split: if_splits option.splits)
next
  case OpTryLock
  then show ?thesis
    using assms Mutex_TryLockFor_held[of m 0 k]
    by (auto simp: guard_defs Mutex_TryLock_def split: if_splits prod.splits)
next
  case (OpTryLockFor timeout)
  then show ?thesis
    using assms Mutex_TryLockFor_held[of m timeout k]
    by (auto simp: guard_defs split: if_splits prod.splits)
next
  case OpUnlock
  then show ?thesis
    using assms by (auto simp: guard_defs split: if_splits)
qed

lemma direct_call_effect:
  assumes "direct_call c (Mutex_ops rtos m) k = Some k'" and "c \<noteq> OpUnlock"
  shows "lock_held k (Mutex_handle m) \<longrightarrow> lock_held k' (Mutex_handle m)"
proof (cases c)
  case OpLock
  then show ?thesis using assms Mutex_Lock_held[of m k] by auto
next
  case OpTryLock
  then show ?thesis
    using assms Mutex_TryLockFor_held[of m 0 k] by (auto simp: Mutex_TryLock_def)
next
  case (OpTryLockFor timeout)
  then show ?thesis using assms Mutex_TryLockFor_held[of m timeout k] by auto
next
  case OpUnlock
  then show ?thesis using assms by simp
qed

lemma step_consistent:
  assumes inv: "consistent m s" and ok: "\<not> bypasses_guard e s"
    and st: "step (Mutex_ops rtos m) e s = Some s'"
  shows "consistent m s'"
proof (cases s)
  case (Pair gs k)
  show ?thesis
  proof (cases e)
    case (ByGuard t i c)
    show ?thesis
    proof (cases "i < length gs")
      case False
      with st Pair ByGuard inv show ?thesis by simp
    next
      case True
      let ?g = "gs ! i"
      from st Pair ByGuard True obtain g' k' where
        gc: "guard_call c ?g (k\<lparr>current := t\<rparr>) = Some (g', k')"
        and s': "s' = (gs[i := g'], k')"
        by (auto split: option.splits)
      from inv Pair True have mg: "mutex ?g = Mutex_ops rtos m"
        by (simp add: consistent_def)
      note eff = guard_call_effect[OF gc mg]
      note cnt = owners_update[OF True, of g' k' k]
      from inv Pair have le: "owners (gs, k) \<le> 1"
        and held: "0 < owners (gs, k) \<longrightarrow> lock_held k (Mutex_handle m)"
        by (simp_all add: consistent_def)
      have m': "\<forall>x \<in> set (gs[i := g']). mutex x = Mutex_ops rtos m"
      proof
        fix x assume "x \<in> set (gs[i := g'])"
        then have "x \<in> insert g' (set gs)" using set_update_subset_insert by fast
        with eff inv Pair show "mutex x = Mutex_ops rtos m"
          by (auto simp: consistent_def)
      qed
      have "owners (gs[i := g'], k') \<le> 1 \<and>
            (0 < owners (gs[i := g'], k') \<longrightarrow> lock_held k' (Mutex_handle m))"
      proof (cases "OwnsLock ?g")
        case og: True
        show ?thesis
        proof (cases "OwnsLock g'")
          case True
          with og eff cnt le held show ?thesis by auto
        next
          case False
          with og cnt le show ?thesis by auto
        qed
      next
        case og: False
        show ?thesis
        proof (cases "OwnsLock g'")
          case True
          with og eff have "\<not> lock_held k (Mutex_handle m)" and "lock_held k' (Mutex_handle m)"
            by simp_all
          with held have "owners (gs, k) = 0" by auto
          with og True cnt \<open>lock_held k' (Mutex_handle m)\<close> show ?thesis by simp
        next
          case False
          with og eff cnt le held show ?thesis by auto
        qed
      qed
      with m' s' show ?thesis by (simp add: consistent_def)
    qed
  next
    case (Direct t c)
    from st Pair Direct obtain k' where
      dc: "direct_call c (Mutex_ops rtos m) (k\<lparr>current := t\<rparr>) = Some k'"
      and s': "s' = (gs, k')"
      by (auto split: option.splits)
    show ?thesis
    proof (cases "c = OpUnlock")
      case True
      with ok Pair Direct have "owners (gs, k) = 0" by simp
      then have "owners (gs, k') = 0" using owners_kernel by metis
      with inv Pair s' show ?thesis by (simp add: consistent_def)
    next
      case False
      from direct_call_effect[OF dc False]
      have "lock_held k (Mutex_handle m) \<longrightarrow> lock_held k' (Mutex_handle m)" by simp
      moreover have "owners (gs, k') = owners (gs, k)" using owners_kernel by metis
      ultimately show ?thesis using inv Pair s' by (simp add: consistent_def)
    qed
  qed
qed

lemma run_consistent:
  "consistent m s \<Longrightarrow> disciplined (Mutex_ops rtos m) evs s \<Longrightarrow>
   run (Mutex_ops rtos m) evs s = Some s' \<Longrightarrow> consistent m s'"
proof (induction evs arbitrary: s)
  case Nil
  then show ?case by simp
next
  case (Cons e evs)
  from Cons.prems(3) obtain s1 where
    st: "step (Mutex_ops rtos m) e s = Some s1" and r: "run (Mutex_ops rtos m) evs s1 = Some s'"
    by (auto split: option.splits)
  from Cons.prems(2) st have ok: "\<not> bypasses_guard e s"
    and d: "disciplined (Mutex_ops rtos m) evs s1" by simp_all
  from step_consistent[OF Cons.prems(1) ok st] have "consistent m s1" .
  from Cons.IH[OF this d r] show ?case .
qed

lemma deferred_consistent:
  "consistent m (deferred_guards (Mutex_ops rtos m) k n, k)"
  by (simp add: consistent_def deferred_guards_def owners_def ownership_def guard_defs)

text \<open>
  Claim C9, as amended. Any number of guards are constructed on one \<open>Mutex\<close>, and tasks
  then make any sequence of calls: operations of the guards and operations of the mutex
  itself. (The other constructors are the deferred one followed by \<open>Lock()\<close>,
  \<open>TryLock()\<close> or \<open>TryLockFor()\<close>, and the destructor is \<open>Unlock()\<close>.) If the mutex's
  own \<open>Unlock()\<close> is never called while a guard owns the lock, then in every state reached
  at most one guard reports \<open>OwnsLock()\<close>.
\<close>

theorem at_most_one_owner:
  assumes "disciplined (Mutex_ops rtos m) evs (deferred_guards (Mutex_ops rtos m) k n, k)"
    and "run (Mutex_ops rtos m) evs (deferred_guards (Mutex_ops rtos m) k n, k) = Some s"
  shows "owners s \<le> 1"
  using run_consistent[OF deferred_consistent assms] by (simp add: consistent_def)

theorem at_most_one_owner_witness:
  "disciplined (Mutex_ops rtos \<lparr>Mutex_handle = Suc 0\<rparr>)
     [ByGuard 0 0 OpTryLock, ByGuard 1 1 OpTryLock, ByGuard 0 0 OpUnlock, Direct 2 OpUnlock,
      ByGuard 1 1 OpLock, Direct 0 (OpTryLockFor 9)]
     (deferred_guards (Mutex_ops rtos \<lparr>Mutex_handle = Suc 0\<rparr>)
        (snd (k_create CreateMutex (boot 0 1))) 2,
      snd (k_create CreateMutex (boot 0 1))) \<and>
   (\<exists>s. run (Mutex_ops rtos \<lparr>Mutex_handle = Suc 0\<rparr>)
          [ByGuard 0 0 OpTryLock, ByGuard 1 1 OpTryLock, ByGuard 0 0 OpUnlock, Direct 2 OpUnlock,
           ByGuard 1 1 OpLock, Direct 0 (OpTryLockFor 9)]
          (deferred_guards (Mutex_ops rtos \<lparr>Mutex_handle = Suc 0\<rparr>)
             (snd (k_create CreateMutex (boot 0 1))) 2,
           snd (k_create CreateMutex (boot 0 1))) = Some s \<and>
        ownership s = [False, True] \<and> owners s \<le> 1)"
proof -
  let ?M = "Mutex_ops rtos \<lparr>Mutex_handle = Suc 0\<rparr>"
  let ?evs = "[ByGuard 0 0 OpTryLock, ByGuard 1 1 OpTryLock, ByGuard 0 0 OpUnlock, Direct 2 OpUnlock,
               ByGuard 1 1 OpLock, Direct 0 (OpTryLockFor 9)]"
  let ?s0 = "(deferred_guards ?M (snd (k_create CreateMutex (boot 0 1))) 2,
              snd (k_create CreateMutex (boot 0 1)))"
  have d: "disciplined ?M ?evs ?s0" by code_simp
  have "map_option ownership (run ?M ?evs ?s0) = Some [False, True]" by code_simp
  then obtain s where r: "run ?M ?evs ?s0 = Some s" and o: "ownership s = [False, True]"
    by auto
  from at_most_one_owner[OF d r] have "owners s \<le> 1" .
  with d r o show ?thesis by blast
qed

text \<open>
  Without the condition the claim fails: the guard's flag is local to the guard, and a
  release of the mutex that does not go through the guard leaves it set. Task 0 takes the
  lock through guard 0 and then calls the mutex's own \<open>Unlock()\<close>; task 1 takes the lock
  through guard 1: both guards report \<open>OwnsLock()\<close>.
\<close>

theorem two_owners_counterexample:
  "map_option ownership
     (run (Mutex_ops rtos \<lparr>Mutex_handle = Suc 0\<rparr>)
        [ByGuard 0 0 OpTryLock, Direct 0 OpUnlock, ByGuard 1 1 OpTryLock]
        (deferred_guards (Mutex_ops rtos \<lparr>Mutex_handle = Suc 0\<rparr>)
           (snd (k_create CreateMutex (boot 0 1))) 2,
         snd (k_create CreateMutex (boot 0 1)))) = Some [True, True] \<and>
   map_option owners
     (run (Mutex_ops rtos \<lparr>Mutex_handle = Suc 0\<rparr>)
        [ByGuard 0 0 OpTryLock, Direct 0 OpUnlock, ByGuard 1 1 OpTryLock]
        (deferred_guards (Mutex_ops rtos \<lparr>Mutex_handle = Suc 0\<rparr>)
           (snd (k_create CreateMutex (boot 0 1))) 2,
         snd (k_create CreateMutex (boot 0 1)))) = Some 2"
  by code_simp

end
